theory Spec2Isabelle
  imports Main "HOL-Library.Word" "HOL-Library.AList"
begin

unbundle bit_operations_syntax

section \<open>Errors\<close>

text \<open>
  Every \<^verbatim>\<open>throw new Error(...)\<close> of \<^verbatim>\<open>eosjs2-serialize.ts\<close> is a constructor
  of \<open>error\<close>, named after the error kind of the specification, with the message
  of the source in the comment. \<open>RangeError\<close> and \<open>TypeError\<close> are the errors the
  JavaScript runtime raises by itself; \<open>External\<close> is an error raised inside an
  imported collaborator (\<^verbatim>\<open>eosjs2-numeric\<close>); \<open>Unmodelled\<close> marks the places
  where the source goes on and the model stops: a JavaScript coercion of a value outside
  the declared TypeScript parameter type, or a value that \<open>jvalue\<close> cannot hold.
\<close>

datatype error =
    BufferUnderrun  \<comment> \<open>'Read past end of buffer'\<close>
  | SizeMismatch  \<comment> \<open>'Binary data has incorrect size'\<close>
  | InvalidText  \<comment> \<open>raised by the fatal TextDecoder\<close>
  | MalformedAsset  \<comment> \<open>'Asset must begin with a number'\<close>
  | InvalidSymbol  \<comment> \<open>'Invalid symbol'\<close>
  | DontKnowSerialize string  \<comment> \<open>"Don't know how to serialize " + this.name\<close>
  | DontKnowDeserialize string  \<comment> \<open>"Don't know how to deserialize " + this.name\<close>
  | MissingField string string string
      \<comment> \<open>'missing ' + this.name + '.' + field.name + ' (type=' + field.type.name + ')'\<close>
  | UnknownType string  \<comment> \<open>'Unknown type: ' + name\<close>
  | UnknownAction string string  \<comment> \<open>`Unknown action ${name} in contract ${account}`\<close>
  | RangeError
  | TypeError
  | External string
  | Unmodelled

section \<open>SerialBuffer\<close>

type_synonym byte = "8 word"

text \<open>
  The class \<^verbatim>\<open>SerialBuffer\<close>: \<open>arrayB\<close> is the whole backing \<^verbatim>\<open>Uint8Array\<close>
  (its capacity is the list's length), \<open>lengthB\<close> the number of bytes written and
  \<open>readPos\<close> the read cursor. The text codec is injected through the constructor.
\<close>

record SerialBuffer =
  lengthB :: nat
  arrayB :: "byte list"
  readPos :: nat
  textEncoder :: "string \<Rightarrow> byte list"
  textDecoder :: "byte list \<Rightarrow> error + string"

definition new_SerialBuffer ::
  "(string \<Rightarrow> byte list) \<Rightarrow> (byte list \<Rightarrow> error + string) \<Rightarrow> SerialBuffer" where
  "new_SerialBuffer enc dec =
     \<lparr>lengthB = 0, arrayB = replicate 1024 0, readPos = 0, textEncoder = enc, textDecoder = dec\<rparr>"

text \<open>
  The loop of \<^verbatim>\<open>reserve\<close>: \<^verbatim>\<open>while (this.length + size > l) l = Math.ceil(l * 1.5)\<close>.
  On a natural number \<open>Math.ceil(l * 1.5)\<close> is \<open>(3 * l + 1) div 2\<close>. From \<open>l = 0\<close>
  the loop never ends, which is the value \<open>None\<close>.
\<close>

partial_function (option) reserve_loop :: "nat \<Rightarrow> nat \<Rightarrow> nat option" where
  "reserve_loop need l = (if need > l then reserve_loop need ((3 * l + 1) div 2) else Some l)"

definition reserve :: "SerialBuffer \<Rightarrow> nat \<Rightarrow> SerialBuffer option" where
  "reserve b sz =
     (if lengthB b + sz \<le> length (arrayB b) then Some b
      else map_option
        (\<lambda>l. b\<lparr>arrayB := arrayB b @ replicate (l - length (arrayB b)) 0\<rparr>)
        (reserve_loop (lengthB b + sz) (length (arrayB b))))"

text \<open>
  \<^verbatim>\<open>Uint8Array.prototype.set(v, offset)\<close>: a \<open>RangeError\<close> when the source does not
  fit, otherwise the slice is overwritten.
\<close>

definition array_set :: "byte list \<Rightarrow> byte list \<Rightarrow> nat \<Rightarrow> byte list option" where
  "array_set a v off =
     (if off + length v \<le> length a then Some (take off a @ v @ drop (off + length v) a)
      else None)"

text \<open>
  \<^verbatim>\<open>pushArray\<close>. The bytes \<open>v\<close> are the elements after the conversion to
  \<^verbatim>\<open>Uint8\<close> that \<^verbatim>\<open>set\<close> applies to a \<^verbatim>\<open>number[]\<close>. The outer \<open>option\<close> is
  \<open>None\<close> when \<^verbatim>\<open>reserve\<close> does not return.
\<close>

definition pushArray :: "SerialBuffer \<Rightarrow> byte list \<Rightarrow> (error + SerialBuffer) option" where
  "pushArray b v =
     (case reserve b (length v) of
        None \<Rightarrow> None
      | Some b1 \<Rightarrow>
          (case array_set (arrayB b1) v (lengthB b1) of
             None \<Rightarrow> Some (Inl RangeError)
           | Some a \<Rightarrow> Some (Inr (b1\<lparr>arrayB := a, lengthB := lengthB b1 + length v\<rparr>))))"

text \<open>\<^verbatim>\<open>push(...v: number[])\<close>: the numbers are stored modulo 256.\<close>

definition push :: "SerialBuffer \<Rightarrow> int list \<Rightarrow> (error + SerialBuffer) option" where
  "push b v = pushArray b (map word_of_int v)"

text \<open>
  Reading an index of a \<^verbatim>\<open>Uint8Array\<close>: \<^verbatim>\<open>undefined\<close> (here \<open>None\<close>) outside
  the array.
\<close>

definition byteAt :: "byte list \<Rightarrow> nat \<Rightarrow> byte option" where
  "byteAt a i = (if i < length a then Some (a ! i) else None)"

definition get :: "SerialBuffer \<Rightarrow> error + (byte option \<times> SerialBuffer)" where
  "get b =
     (if readPos b < lengthB b
      then Inr (byteAt (arrayB b) (readPos b), b\<lparr>readPos := readPos b + 1\<rparr>)
      else Inl BufferUnderrun)"

definition pushUint8ArrayChecked ::
  "SerialBuffer \<Rightarrow> byte list \<Rightarrow> nat \<Rightarrow> (error + SerialBuffer) option" where
  "pushUint8ArrayChecked b v len =
     (if length v \<noteq> len then Some (Inl SizeMismatch) else pushArray b v)"

text \<open>
  \<^verbatim>\<open>getUint8Array\<close>: the view \<^verbatim>\<open>new Uint8Array(this.array.buffer, this.readPos, len)\<close>
  is a \<open>RangeError\<close> when it does not lie inside the backing array.
\<close>

definition getUint8Array :: "SerialBuffer \<Rightarrow> nat \<Rightarrow> error + (byte list \<times> SerialBuffer)" where
  "getUint8Array b len =
     (if readPos b + len > lengthB b then Inl BufferUnderrun
      else if readPos b + len > length (arrayB b) then Inl RangeError
      else Inr (take len (drop (readPos b) (arrayB b)), b\<lparr>readPos := readPos b + len\<rparr>))"

definition asUint8Array :: "SerialBuffer \<Rightarrow> byte list" where
  "asUint8Array b = take (lengthB b) (arrayB b)"

text \<open>
  A text codec to inject: UTF-8 on ASCII text, where a character is its own byte.
  It stands for the platform's \<^verbatim>\<open>TextEncoder\<close> and fatal \<^verbatim>\<open>TextDecoder\<close> on
  ASCII input; bytes from 128 on are outside it.
\<close>

definition ascii_encode :: "string \<Rightarrow> byte list" where
  "ascii_encode s = map (\<lambda>c. of_nat (of_char c)) s"

definition ascii_decode :: "byte list \<Rightarrow> error + string" where
  "ascii_decode bs =
     (if \<forall>x \<in> set bs. x < 128 then Inr (map (\<lambda>x. char_of (unat x)) bs) else Inl InvalidText)"

section \<open>Sequencing\<close>

text \<open>
  A write returns \<open>None\<close> when it does not return, \<open>Some (Inl e)\<close> when it throws
  and \<open>Some (Inr b)\<close> with the buffer after the call. A read cannot loop: it is an
  \<open>error + _\<close>. \<open>bindW\<close> and \<open>bindR\<close> are the semicolon of the source.
\<close>

definition bindW :: "(error + 'a) option \<Rightarrow> ('a \<Rightarrow> (error + 'b) option) \<Rightarrow> (error + 'b) option" where
  "bindW m f = (case m of None \<Rightarrow> None | Some (Inl e) \<Rightarrow> Some (Inl e) | Some (Inr x) \<Rightarrow> f x)"

definition bindR :: "error + 'a \<Rightarrow> ('a \<Rightarrow> error + 'b) \<Rightarrow> error + 'b" where
  "bindR m f = (case m of Inl e \<Rightarrow> Inl e | Inr x \<Rightarrow> f x)"

lemma bindW_simps [simp]:
  "bindW None f = None" "bindW (Some (Inl e)) f = Some (Inl e)" "bindW (Some (Inr x)) f = f x"
  by (simp_all add: bindW_def)

lemma bindR_simps [simp]:
  "bindR (Inl e) f = Inl e" "bindR (Inr x) f = f x"
  by (simp_all add: bindR_def)

lemma bindW_cong [fundef_cong]:
  "m = m' \<Longrightarrow> (\<And>x. m' = Some (Inr x) \<Longrightarrow> f x = f' x) \<Longrightarrow> bindW m f = bindW m' f'"
  by (auto simp: bindW_def split: option.splits sum.splits)

lemma bindR_cong [fundef_cong]:
  "m = m' \<Longrightarrow> (\<And>x. m' = Inr x \<Longrightarrow> f x = f' x) \<Longrightarrow> bindR m f = bindR m' f'"
  by (auto simp: bindR_def split: sum.splits)

section \<open>Integers\<close>

text \<open>
  A JavaScript number that holds an integer is an \<open>int\<close>. The bitwise operators work
  on its 32-bit two's complement \<open>word_of_int v\<close>; \<^verbatim>\<open>>>\<close> is \<open>signed_drop_bit\<close>,
  \<^verbatim>\<open>>>>\<close> is \<open>drop_bit\<close>, and a shift count is taken modulo 32. \<open>num_of\<close> is the
  conversion of the result of \<^verbatim>\<open>get()\<close>, a byte or \<^verbatim>\<open>undefined\<close>, to an
  \<^verbatim>\<open>Int32\<close>.
\<close>

definition num_of :: "byte option \<Rightarrow> 32 word" where
  "num_of x = (case x of None \<Rightarrow> 0 | Some y \<Rightarrow> ucast y)"

definition pushUint16 :: "SerialBuffer \<Rightarrow> int \<Rightarrow> (error + SerialBuffer) option" where
  "pushUint16 b v =
     push b [uint (signed_drop_bit 0 (word_of_int v :: 32 word) AND 0xff),
             uint (signed_drop_bit 8 (word_of_int v :: 32 word) AND 0xff)]"

definition getUint16 :: "SerialBuffer \<Rightarrow> error + (int \<times> SerialBuffer)" where
  "getUint16 b =
     bindR (get b) (\<lambda>(x0, b1).
     bindR (get b1) (\<lambda>(x1, b2).
       Inr (sint (0 OR push_bit 0 (num_of x0) OR push_bit 8 (num_of x1)), b2)))"

definition pushUint32 :: "SerialBuffer \<Rightarrow> int \<Rightarrow> (error + SerialBuffer) option" where
  "pushUint32 b v =
     push b [uint (signed_drop_bit 0 (word_of_int v :: 32 word) AND 0xff),
             uint (signed_drop_bit 8 (word_of_int v :: 32 word) AND 0xff),
             uint (signed_drop_bit 16 (word_of_int v :: 32 word) AND 0xff),
             uint (signed_drop_bit 24 (word_of_int v :: 32 word) AND 0xff)]"

definition getUint32 :: "SerialBuffer \<Rightarrow> error + (int \<times> SerialBuffer)" where
  "getUint32 b =
     bindR (get b) (\<lambda>(x0, b1).
     bindR (get b1) (\<lambda>(x1, b2).
     bindR (get b2) (\<lambda>(x2, b3).
     bindR (get b3) (\<lambda>(x3, b4).
       Inr (uint (0 OR push_bit 0 (num_of x0) OR push_bit 8 (num_of x1)
                  OR push_bit 16 (num_of x2) OR push_bit 24 (num_of x3)), b4)))))"

text \<open>
  The sum of \<^verbatim>\<open>getUint64AsNumber\<close> is computed in binary64. Its exact value \<open>n\<close> is
  an integer with \<open>0 \<le> n < 2 ^ 64\<close>; the number that the addition returns is the
  nearest one with a mantissa of 53 bits, and of two nearest ones the one with the even
  mantissa. Below \<open>2 ^ 53\<close> that is \<open>n\<close> itself; from there on \<open>n\<close> has \<open>53 + e\<close>
  bits, with \<open>e\<close> from \<open>1\<close> to \<open>11\<close>, and is rounded to a multiple of \<open>2 ^ e\<close>.
\<close>

definition round_binary64 :: "int \<Rightarrow> int" where
  "round_binary64 n =
     (if n < 2 ^ 53 then n
      else
        let e = length (filter (\<lambda>k. 2 ^ (52 + k) \<le> n) [1..<12]);
            q = n div 2 ^ e;
            r = n mod 2 ^ e
        in if 2 * r > 2 ^ e \<or> (2 * r = 2 ^ e \<and> odd q) then (q + 1) * 2 ^ e else q * 2 ^ e)"

text \<open>
  \<^verbatim>\<open>pushNumberAsUint64\<close> and \<^verbatim>\<open>getUint64AsNumber\<close>. The argument of the writer is a
  number with an integer value; \<^verbatim>\<open>v >>> 0\<close> and \<^verbatim>\<open>Math.floor(v / 0x100000000)\<close> are
  exact on it.
\<close>

definition pushNumberAsUint64 :: "SerialBuffer \<Rightarrow> int \<Rightarrow> (error + SerialBuffer) option" where
  "pushNumberAsUint64 b v =
     bindW (pushUint32 b (uint (drop_bit 0 (word_of_int v :: 32 word)))) (\<lambda>b1.
       pushUint32 b1 (uint (drop_bit 0 (word_of_int (v div 0x100000000) :: 32 word))))"

definition getUint64AsNumber :: "SerialBuffer \<Rightarrow> error + (int \<times> SerialBuffer)" where
  "getUint64AsNumber b =
     bindR (getUint32 b) (\<lambda>(low, b1).
     bindR (getUint32 b1) (\<lambda>(high, b2).
       Inr (round_binary64
              (uint (drop_bit 0 (word_of_int high :: 32 word)) * 0x100000000
               + uint (drop_bit 0 (word_of_int low :: 32 word))), b2)))"

subsection \<open>varuint32 and varint32\<close>

function pushVaruint32 :: "SerialBuffer \<Rightarrow> int \<Rightarrow> (error + SerialBuffer) option" where
  "pushVaruint32 b v =
     (if drop_bit 7 (word_of_int v :: 32 word) \<noteq> 0 then
        bindW (push b [uint (0x80 OR (word_of_int v AND 0x7f) :: 32 word)]) (\<lambda>b1.
          pushVaruint32 b1 (uint (drop_bit 7 (word_of_int v :: 32 word))))
      else push b [v])"
  by pat_completeness auto
termination
proof (relation "measure (\<lambda>(b, v). unat (word_of_int v :: 32 word))")
  fix b :: SerialBuffer and v :: int and x :: SerialBuffer
  assume nz: "drop_bit 7 (word_of_int v :: 32 word) \<noteq> 0"
  let ?w = "word_of_int v :: 32 word"
  have "unat (drop_bit 7 ?w) = unat ?w div 128" by (simp add: drop_bit_eq_div unat_div)
  moreover have "unat (drop_bit 7 ?w) \<noteq> 0" using nz by (simp add: unat_eq_0)
  ultimately have "unat (drop_bit 7 ?w) < unat ?w" by simp
  then show "((x, uint (drop_bit 7 ?w)), (b, v)) \<in> measure (\<lambda>(b, v). unat (word_of_int v :: 32 word))"
    by simp
qed simp

function getVaruint32_loop :: "SerialBuffer \<Rightarrow> 32 word \<Rightarrow> nat \<Rightarrow> error + (int \<times> SerialBuffer)" where
  "getVaruint32_loop b v bitpos =
     (case get b of
        Inl e \<Rightarrow> Inl e
      | Inr (x, b1) \<Rightarrow>
          (let v1 = v OR push_bit (bitpos mod 32) (num_of x AND 0x7f) in
           if num_of x AND 0x80 = 0 then Inr (uint (drop_bit 0 v1), b1)
           else getVaruint32_loop b1 v1 (bitpos + 7)))"
  by pat_completeness auto
termination
  by (relation "measure (\<lambda>(b, v, bitpos). lengthB b - readPos b)")
     (auto simp: get_def split: if_splits)

declare pushVaruint32.simps [simp del] getVaruint32_loop.simps [simp del]

definition getVaruint32 :: "SerialBuffer \<Rightarrow> error + (int \<times> SerialBuffer)" where
  "getVaruint32 b = getVaruint32_loop b 0 0"

definition pushVarint32 :: "SerialBuffer \<Rightarrow> int \<Rightarrow> (error + SerialBuffer) option" where
  "pushVarint32 b v =
     pushVaruint32 b
       (sint (push_bit 1 (word_of_int v :: 32 word) XOR signed_drop_bit 31 (word_of_int v)))"

definition getVarint32 :: "SerialBuffer \<Rightarrow> error + (int \<times> SerialBuffer)" where
  "getVarint32 b =
     bindR (getVaruint32 b) (\<lambda>(v, b1).
       if (word_of_int v :: 32 word) AND 1 \<noteq> 0
       then Inr (sint (signed_drop_bit 1 (NOT (word_of_int v :: 32 word)) OR 0x80000000), b1)
       else Inr (uint (drop_bit 1 (word_of_int v :: 32 word)), b1))"

section \<open>Values and collaborators\<close>

text \<open>
  The \<^verbatim>\<open>any\<close> that the codecs encode and decode: JSON-like values. A number is an
  integer; numbers with a fraction only matter to \<^verbatim>\<open>float32\<close> and \<^verbatim>\<open>float64\<close>,
  whose codecs are parameters. An object is the list of its own properties in
  the order of their creation (JavaScript lists names that are array indices first; the
  theorems below read an object through \<open>map_of\<close>, where the order does not matter).
  The values of the properties inherited from \<^verbatim>\<open>Object.prototype\<close> are functions and
  not values of this type.
\<close>

datatype jvalue =
    JNull
  | JUndefined
  | JBool bool
  | JNum int
  | JStr string
  | JArr "jvalue list"
  | JObj "(string \<times> jvalue) list"

text \<open>
  What the source imports and this repository does not hold under \<^verbatim>\<open>src/\<close>, as
  parameters: the functions of \<^verbatim>\<open>./eosjs2-numeric\<close>, the conversions between a
  number and its IEEE bytes (\<^verbatim>\<open>Float32Array\<close>, \<^verbatim>\<open>Float64Array\<close>), and the six
  date conversions of the source, which are arithmetic on \<^verbatim>\<open>Date.parse\<close> and
  \<^verbatim>\<open>toISOString\<close>. A date that does not parse gives \<^verbatim>\<open>NaN\<close>, which every
  caller turns into \<open>0\<close> by \<^verbatim>\<open>>>> 0\<close>; the parameter returns that \<open>0\<close>.
\<close>

record externals =
  decimalToBinary :: "nat \<Rightarrow> string \<Rightarrow> error + byte list"
  signedDecimalToBinary :: "nat \<Rightarrow> string \<Rightarrow> error + byte list"
  binaryToDecimal :: "byte list \<Rightarrow> nat \<Rightarrow> string"
  signedBinaryToDecimal :: "byte list \<Rightarrow> nat \<Rightarrow> string"
  stringToPublicKey :: "string \<Rightarrow> error + (int \<times> byte list)"
  publicKeyToString :: "byte option \<times> byte list \<Rightarrow> error + string"
  publicKeyDataSize :: nat
  stringToPrivateKey :: "string \<Rightarrow> error + (int \<times> byte list)"
  privateKeyToString :: "byte option \<times> byte list \<Rightarrow> error + string"
  privateKeyDataSize :: nat
  stringToSignature :: "string \<Rightarrow> error + (int \<times> byte list)"
  signatureToString :: "byte option \<times> byte list \<Rightarrow> error + string"
  signatureDataSize :: nat
  float32ToBytes :: "jvalue \<Rightarrow> byte list"
  bytesToFloat32 :: "byte list \<Rightarrow> jvalue"
  float64ToBytes :: "jvalue \<Rightarrow> byte list"
  bytesToFloat64 :: "byte list \<Rightarrow> jvalue"
  dateToTimePoint :: "string \<Rightarrow> int"
  timePointToDate :: "int \<Rightarrow> error + string"
  dateToTimePointSec :: "string \<Rightarrow> int"
  timePointSecToDate :: "int \<Rightarrow> error + string"
  dateToBlockTimestamp :: "string \<Rightarrow> int"
  blockTimestampToDate :: "int \<Rightarrow> error + string"

section \<open>Strings\<close>

text \<open>
  A JavaScript string is a \<open>string\<close>: a list of code units below 256.
  \<^verbatim>\<open>trim\<close> removes the white space of that range from both ends; \<^verbatim>\<open>substr\<close>
  counts a negative start from the end and reads a negative length as empty.
\<close>

definition js_whitespace :: "char \<Rightarrow> bool" where
  "js_whitespace c \<longleftrightarrow> of_char c \<in> {9, 10, 11, 12, 13, 32, 160 :: nat}"

definition js_trim :: "string \<Rightarrow> string" where
  "js_trim s = rev (dropWhile js_whitespace (rev (dropWhile js_whitespace s)))"

definition js_substr_from :: "string \<Rightarrow> int \<Rightarrow> string" where
  "js_substr_from s start =
     (if start < 0 then drop (nat (max (int (length s) + start) 0)) s else drop (nat start) s)"

definition js_substr :: "string \<Rightarrow> int \<Rightarrow> int \<Rightarrow> string" where
  "js_substr s start len = take (nat len) (js_substr_from s start)"

definition endsWith :: "string \<Rightarrow> string \<Rightarrow> bool" where
  "endsWith s suffix \<longleftrightarrow> length suffix \<le> length s \<and> drop (length s - length suffix) s = suffix"

definition is_digit :: "char \<Rightarrow> bool" where
  "is_digit c \<longleftrightarrow> of_char CHR ''0'' \<le> (of_char c :: nat) \<and> (of_char c :: nat) \<le> of_char CHR ''9''"

text \<open>The number that a string of decimal digits denotes.\<close>

definition digits_value :: "string \<Rightarrow> nat" where
  "digits_value s = foldl (\<lambda>n c. 10 * n + (of_char c - of_char CHR ''0'')) 0 s"

text \<open>The decimal digits of a positive number; none for \<open>0\<close>.\<close>

function decimal_digits :: "nat \<Rightarrow> string" where
  "decimal_digits v =
     (if v = 0 then [] else decimal_digits (v div 10) @ [char_of (of_char CHR ''0'' + v mod 10)])"
  by pat_completeness auto
termination
  by (relation "measure id") auto

declare decimal_digits.simps [simp del]

text \<open>
  The string of an integer-valued number (\<^verbatim>\<open>'' + n\<close>), below \<open>10 ^ 21\<close> in
  magnitude, where JavaScript prints all digits.
\<close>

definition number_to_string :: "int \<Rightarrow> string" where
  "number_to_string n =
     (if n = 0 then ''0''
      else if n < 0 then ''-'' @ decimal_digits (nat (- n))
      else decimal_digits (nat n))"

subsection \<open>Floats\<close>

definition pushFloat32 :: "externals \<Rightarrow> SerialBuffer \<Rightarrow> jvalue \<Rightarrow> (error + SerialBuffer) option" where
  "pushFloat32 ext b v = pushArray b (float32ToBytes ext v)"

definition getFloat32 :: "externals \<Rightarrow> SerialBuffer \<Rightarrow> error + (jvalue \<times> SerialBuffer)" where
  "getFloat32 ext b = bindR (getUint8Array b 4) (\<lambda>(a, b1). Inr (bytesToFloat32 ext a, b1))"

definition pushFloat64 :: "externals \<Rightarrow> SerialBuffer \<Rightarrow> jvalue \<Rightarrow> (error + SerialBuffer) option" where
  "pushFloat64 ext b v = pushArray b (float64ToBytes ext v)"

definition getFloat64 :: "externals \<Rightarrow> SerialBuffer \<Rightarrow> error + (jvalue \<times> SerialBuffer)" where
  "getFloat64 ext b = bindR (getUint8Array b 8) (\<lambda>(a, b1). Inr (bytesToFloat64 ext a, b1))"

subsection \<open>Packed identifiers\<close>

definition charToSymbol :: "nat \<Rightarrow> nat" where
  "charToSymbol c =
     (if of_char CHR ''a'' \<le> c \<and> c \<le> of_char CHR ''z'' then (c - of_char CHR ''a'') + 6
      else if of_char CHR ''1'' \<le> c \<and> c \<le> of_char CHR ''5'' then (c - of_char CHR ''1'') + 1
      else 0)"

text \<open>
  The inner loop of \<^verbatim>\<open>pushName\<close>, \<^verbatim>\<open>for (let j = 4; j >= 0; --j)\<close>: the last
  argument is \<open>j + 1\<close>. \<open>bitpos\<close> is the variable \<^verbatim>\<open>bit\<close>, which goes below zero.
\<close>

fun pushName_bits :: "byte list \<Rightarrow> int \<Rightarrow> nat \<Rightarrow> nat \<Rightarrow> byte list \<times> int" where
  "pushName_bits a bitpos c 0 = (a, bitpos)"
| "pushName_bits a bitpos c (Suc j) =
     (if bitpos \<ge> 0 then
        pushName_bits
          (a[nat (bitpos div 8) :=
               a ! nat (bitpos div 8) OR push_bit (nat (bitpos mod 8)) (of_nat (drop_bit j c AND 1))])
          (bitpos - 1) c j
      else pushName_bits a bitpos c j)"

fun pushName_chars :: "byte list \<Rightarrow> int \<Rightarrow> string \<Rightarrow> byte list" where
  "pushName_chars a bitpos [] = a"
| "pushName_chars a bitpos (ch # s) =
     (let c = charToSymbol (of_char ch);
          c = (if bitpos < 5 then push_bit 1 c else c);
          (a', bitpos') = pushName_bits a bitpos c 5
      in pushName_chars a' bitpos' s)"

definition pushName :: "SerialBuffer \<Rightarrow> string \<Rightarrow> (error + SerialBuffer) option" where
  "pushName b s = pushArray b (pushName_chars (replicate 8 0) 63 s)"

text \<open>
  The inner loop of \<^verbatim>\<open>getName\<close>, \<^verbatim>\<open>for (let i = 0; i < 5; ++i)\<close>: the last
  argument is the number of iterations left.
\<close>

fun getName_bits :: "byte list \<Rightarrow> int \<Rightarrow> nat \<Rightarrow> nat \<Rightarrow> nat \<times> int" where
  "getName_bits a bitpos c 0 = (c, bitpos)"
| "getName_bits a bitpos c (Suc i) =
     (if bitpos \<ge> 0 then
        getName_bits a (bitpos - 1)
          (push_bit 1 c OR (unat (drop_bit (nat (bitpos mod 8)) (a ! nat (bitpos div 8))) AND 1)) i
      else getName_bits a bitpos c i)"

lemma getName_bits_le: "snd (getName_bits a bitpos c n) \<le> bitpos"
proof (induction n arbitrary: bitpos c)
  case 0
  show ?case by simp
next
  case (Suc n)
  show ?case
  proof (cases "bitpos \<ge> 0")
    case True
    have "snd (getName_bits a (bitpos - 1)
        (push_bit 1 c OR (unat (drop_bit (nat (bitpos mod 8)) (a ! nat (bitpos div 8))) AND 1)) n)
      \<le> bitpos - 1" by (rule Suc.IH)
    with True show ?thesis by (simp del: push_bit_of_1)
  next
    case False
    with Suc.IH [of bitpos c] show ?thesis by simp
  qed
qed

lemma getName_bits_less: "0 \<le> bitpos \<Longrightarrow> snd (getName_bits a bitpos c (Suc n)) < bitpos"
  using getName_bits_le [of a "bitpos - 1" _ n] by (simp del: push_bit_of_1)

definition symbolToChar :: "nat \<Rightarrow> char" where
  "symbolToChar c =
     (if c \<ge> 6 then char_of (c + of_char CHR ''a'' - 6)
      else if c \<ge> 1 then char_of (c + of_char CHR ''1'' - 1)
      else CHR ''.'')"

function getName_chars :: "byte list \<Rightarrow> int \<Rightarrow> string \<Rightarrow> string" where
  "getName_chars a bitpos result =
     (if bitpos \<ge> 0 then
        (case getName_bits a bitpos 0 (Suc (Suc (Suc (Suc (Suc 0))))) of
           (c, bitpos') \<Rightarrow> getName_chars a bitpos' (result @ [symbolToChar c]))
      else result)"
  by pat_completeness auto
termination
proof (relation "measure (\<lambda>(a, bitpos, result). nat (bitpos + 1))")
  show "wf (measure (\<lambda>(a, bitpos, result). nat (bitpos + 1)))" by simp
next
  fix a :: "byte list" and bitpos :: int and result :: string and c bitpos'
  assume pos: "0 \<le> bitpos"
    and "(c, bitpos') = getName_bits a bitpos 0 (Suc (Suc (Suc (Suc (Suc 0)))))"
  then have "bitpos' = snd (getName_bits a bitpos 0 (Suc (Suc (Suc (Suc (Suc 0))))))"
    by (metis snd_conv)
  with getName_bits_less [OF pos, of a 0 "Suc (Suc (Suc (Suc 0)))"]
  have "bitpos' < bitpos" by simp
  with pos
  show "((a, bitpos', result @ [symbolToChar c]), (a, bitpos, result))
      \<in> measure (\<lambda>(a, bitpos, result). nat (bitpos + 1))"
    by simp
qed

declare getName_chars.simps [simp del]

text \<open>\<^verbatim>\<open>while (result.endsWith('.')) result = result.substr(0, result.length - 1)\<close>\<close>

function strip_dots :: "string \<Rightarrow> string" where
  "strip_dots result =
     (if endsWith result ''.'' then strip_dots (js_substr result 0 (int (length result) - 1))
      else result)"
  by pat_completeness auto
termination
  by (relation "measure length")
     (auto simp: endsWith_def js_substr_def js_substr_from_def)

declare strip_dots.simps [simp del]

definition getName :: "SerialBuffer \<Rightarrow> error + (string \<times> SerialBuffer)" where
  "getName b =
     bindR (getUint8Array b 8) (\<lambda>(a, b1).
       let result = getName_chars a 63 [] in
       if result = ''.............'' then Inr (result, b1)
       else Inr (strip_dots result, b1))"

subsection \<open>Bytes and text\<close>

definition pushBytes :: "SerialBuffer \<Rightarrow> byte list \<Rightarrow> (error + SerialBuffer) option" where
  "pushBytes b v = bindW (pushVaruint32 b (int (length v))) (\<lambda>b1. pushArray b1 v)"

definition getBytes :: "SerialBuffer \<Rightarrow> error + (byte list \<times> SerialBuffer)" where
  "getBytes b = bindR (getVaruint32 b) (\<lambda>(n, b1). getUint8Array b1 (nat n))"

definition pushString :: "SerialBuffer \<Rightarrow> string \<Rightarrow> (error + SerialBuffer) option" where
  "pushString b v = pushBytes b (textEncoder b v)"

definition getString :: "SerialBuffer \<Rightarrow> error + (string \<times> SerialBuffer)" where
  "getString b =
     bindR (getBytes b) (\<lambda>(bs, b1). bindR (textDecoder b bs) (\<lambda>s. Inr (s, b1)))"

subsection \<open>Symbol codes, symbols and assets\<close>

definition pushSymbolCode :: "SerialBuffer \<Rightarrow> string \<Rightarrow> (error + SerialBuffer) option" where
  "pushSymbolCode b name =
     (let a = textEncoder b name;
          a = a @ replicate (8 - length a) 0
      in pushArray b (take 8 a))"

definition getSymbolCode :: "SerialBuffer \<Rightarrow> error + (string \<times> SerialBuffer)" where
  "getSymbolCode b =
     bindR (getUint8Array b 8) (\<lambda>(a, b1).
     bindR (textDecoder b (takeWhile (\<lambda>x. x \<noteq> 0) a)) (\<lambda>name. Inr (name, b1)))"

text \<open>A \<^verbatim>\<open>Symbol\<close> \<^verbatim>\<open>{ name, precision }\<close> is the pair \<open>(name, precision)\<close>.\<close>

definition pushSymbol :: "SerialBuffer \<Rightarrow> string \<times> int \<Rightarrow> (error + SerialBuffer) option" where
  "pushSymbol b symbol =
     (case symbol of (name, precision) \<Rightarrow>
        let a = [ucast ((word_of_int precision :: 32 word) AND 0xff)] @ textEncoder b name;
            a = a @ replicate (8 - length a) 0
        in pushArray b (take 8 a))"

text \<open>
  \<^verbatim>\<open>getSymbol\<close>. When \<^verbatim>\<open>get()\<close> yields \<^verbatim>\<open>undefined\<close> the read cursor is
  outside the backing array and \<^verbatim>\<open>getUint8Array(7)\<close> throws
  (\<open>getSymbol_precision_defined\<close> below), so the precision of a symbol that is
  returned is a byte.
\<close>

definition getSymbol :: "SerialBuffer \<Rightarrow> error + ((string \<times> int) \<times> SerialBuffer)" where
  "getSymbol b =
     bindR (get b) (\<lambda>(precision, b1).
     bindR (getUint8Array b1 7) (\<lambda>(a, b2).
     bindR (textDecoder b (takeWhile (\<lambda>x. x \<noteq> 0) a)) (\<lambda>name.
       Inr ((name, (case precision of Some p \<Rightarrow> uint p | None \<Rightarrow> 0)), b2))))"

text \<open>
  \<^verbatim>\<open>pushAsset\<close>. The two digit loops are \<open>takeWhile\<close> and \<open>dropWhile\<close> on the
  text from \<open>pos\<close> on.
\<close>

definition pushAsset :: "externals \<Rightarrow> SerialBuffer \<Rightarrow> string \<Rightarrow> (error + SerialBuffer) option" where
  "pushAsset ext b s0 =
     (let s = js_trim s0;
          (amount0, r0) = (case s of c # r \<Rightarrow> if c = CHR ''-'' then (''-'', r) else ('''', s)
                           | [] \<Rightarrow> ('''', s));
          digits = takeWhile is_digit r0;
          r1 = dropWhile is_digit r0
      in if digits = [] then Some (Inl MalformedAsset)
         else
           let (fraction, r2) =
                 (case r1 of c # r \<Rightarrow>
                    if c = CHR ''.'' then (takeWhile is_digit r, dropWhile is_digit r) else ([], r1)
                  | [] \<Rightarrow> ([], r1));
               amount = amount0 @ digits @ fraction;
               precision = int (length fraction);
               name = js_trim r2
           in bindW (case signedDecimalToBinary ext 8 amount of
                       Inl e \<Rightarrow> Some (Inl e)
                     | Inr bytes \<Rightarrow> pushArray b bytes)
                (\<lambda>b1. pushSymbol b1 (name, precision)))"

definition getAsset :: "externals \<Rightarrow> SerialBuffer \<Rightarrow> error + (string \<times> SerialBuffer)" where
  "getAsset ext b =
     bindR (getUint8Array b 8) (\<lambda>(amount, b1).
     bindR (getSymbol b1) (\<lambda>((name, precision), b2).
       let s = signedBinaryToDecimal ext amount (nat (precision + 1));
           s = (if precision \<noteq> 0
                then js_substr s 0 (int (length s) - precision) @ ''.''
                     @ js_substr_from s (int (length s) - precision)
                else s)
       in Inr (s @ '' '' @ name, b2)))"

subsection \<open>Keys and signatures\<close>

definition pushKey ::
  "(string \<Rightarrow> error + (int \<times> byte list)) \<Rightarrow> SerialBuffer \<Rightarrow> string \<Rightarrow> (error + SerialBuffer) option" where
  "pushKey parse b s =
     (case parse s of
        Inl e \<Rightarrow> Some (Inl e)
      | Inr (type, data) \<Rightarrow> bindW (push b [type]) (\<lambda>b1. pushArray b1 data))"

definition getKey ::
  "(byte option \<times> byte list \<Rightarrow> error + string) \<Rightarrow> nat \<Rightarrow> SerialBuffer \<Rightarrow> error + (string \<times> SerialBuffer)" where
  "getKey print dataSize b =
     bindR (get b) (\<lambda>(type, b1).
     bindR (getUint8Array b1 dataSize) (\<lambda>(data, b2).
     bindR (print (type, data)) (\<lambda>s. Inr (s, b2))))"

definition pushPublicKey :: "externals \<Rightarrow> SerialBuffer \<Rightarrow> string \<Rightarrow> (error + SerialBuffer) option" where
  "pushPublicKey ext = pushKey (stringToPublicKey ext)"

definition getPublicKey :: "externals \<Rightarrow> SerialBuffer \<Rightarrow> error + (string \<times> SerialBuffer)" where
  "getPublicKey ext = getKey (publicKeyToString ext) (publicKeyDataSize ext)"

definition pushPrivateKey :: "externals \<Rightarrow> SerialBuffer \<Rightarrow> string \<Rightarrow> (error + SerialBuffer) option" where
  "pushPrivateKey ext = pushKey (stringToPrivateKey ext)"

definition getPrivateKey :: "externals \<Rightarrow> SerialBuffer \<Rightarrow> error + (string \<times> SerialBuffer)" where
  "getPrivateKey ext = getKey (privateKeyToString ext) (privateKeyDataSize ext)"

definition pushSignature :: "externals \<Rightarrow> SerialBuffer \<Rightarrow> string \<Rightarrow> (error + SerialBuffer) option" where
  "pushSignature ext = pushKey (stringToSignature ext)"

definition getSignature :: "externals \<Rightarrow> SerialBuffer \<Rightarrow> error + (string \<times> SerialBuffer)" where
  "getSignature ext = getKey (signatureToString ext) (signatureDataSize ext)"

section \<open>A decimal codec\<close>

text \<open>
  Modelled from the spec: the signed big-integer codec of \<^verbatim>\<open>eosjs2-numeric\<close>, which
  is not under \<^verbatim>\<open>src/\<close>. The specification says that the digit string (sign,
  integer and fraction digits) is written into a fixed slot of \<open>size\<close> bytes and read
  back as a decimal string; the slot is little-endian two's complement, as the wire
  format of the fixed-width integers, and the reader pads with zeros to a minimal number
  of digits.
\<close>

definition le_bytes :: "nat \<Rightarrow> nat \<Rightarrow> byte list" where
  "le_bytes n v = map (\<lambda>i. of_nat (v div 256 ^ i)) [0..<n]"

definition bytes_value :: "byte list \<Rightarrow> nat" where
  "bytes_value bs = foldr (\<lambda>x acc. unat x + 256 * acc) bs 0"

definition num_decimalToBinary :: "nat \<Rightarrow> string \<Rightarrow> error + byte list" where
  "num_decimalToBinary sz s =
     (if \<not> list_all is_digit s then Inl (External ''invalid number'')
      else if digits_value s \<ge> 2 ^ (8 * sz) then Inl (External ''number is out of range'')
      else Inr (le_bytes sz (digits_value s)))"

definition num_negate :: "byte list \<Rightarrow> byte list" where
  "num_negate bs = le_bytes (length bs) (2 ^ (8 * length bs) - bytes_value bs)"

definition num_signedDecimalToBinary :: "nat \<Rightarrow> string \<Rightarrow> error + byte list" where
  "num_signedDecimalToBinary sz s =
     (case s of
        c # r \<Rightarrow> if c = CHR ''-'' then map_sum id num_negate (num_decimalToBinary sz r)
                 else num_decimalToBinary sz s
      | [] \<Rightarrow> num_decimalToBinary sz s)"

definition num_binaryToDecimal :: "byte list \<Rightarrow> nat \<Rightarrow> string" where
  "num_binaryToDecimal bs minDigits =
     (let d = decimal_digits (bytes_value bs)
      in replicate (minDigits - length d) CHR ''0'' @ d)"

definition num_signedBinaryToDecimal :: "byte list \<Rightarrow> nat \<Rightarrow> string" where
  "num_signedBinaryToDecimal bs minDigits =
     (if bs \<noteq> [] \<and> last bs AND 0x80 \<noteq> 0
      then ''-'' @ num_binaryToDecimal (num_negate bs) minDigits
      else num_binaryToDecimal bs minDigits)"

section \<open>Hexadecimal text\<close>

definition hex_digit_upper :: "nat \<Rightarrow> char" where
  "hex_digit_upper n =
     (if n < 10 then char_of (of_char CHR ''0'' + n) else char_of (of_char CHR ''A'' + (n - 10)))"

text \<open>\<^verbatim>\<open>arrayToHex\<close>: two digits for each byte, in upper case.\<close>

definition arrayToHex :: "byte list \<Rightarrow> string" where
  "arrayToHex data = concat (map (\<lambda>x. [hex_digit_upper (unat x div 16), hex_digit_upper (unat x mod 16)]) data)"

definition hex_digit_value :: "char \<Rightarrow> nat option" where
  "hex_digit_value c =
     (let n = of_char c :: nat in
      if of_char CHR ''0'' \<le> n \<and> n \<le> of_char CHR ''9'' then Some (n - of_char CHR ''0'')
      else if of_char CHR ''a'' \<le> n \<and> n \<le> of_char CHR ''f'' then Some (n - of_char CHR ''a'' + 10)
      else if of_char CHR ''A'' \<le> n \<and> n \<le> of_char CHR ''F'' then Some (n - of_char CHR ''A'' + 10)
      else None)"

text \<open>
  \<^verbatim>\<open>parseInt(s, 16)\<close>: leading white space is skipped, then a sign, then a prefix
  \<^verbatim>\<open>0x\<close> or \<^verbatim>\<open>0X\<close>; the value is that of the longest run of hexadecimal digits
  that follows, and \<^verbatim>\<open>NaN\<close> (here \<open>None\<close>) when the run is empty.
\<close>

definition parseInt16 :: "string \<Rightarrow> int option" where
  "parseInt16 s =
     (let s1 = dropWhile js_whitespace s;
          (sign, s2) = (case s1 of c # r \<Rightarrow> if c = CHR ''-'' then (- 1, r)
                                      else if c = CHR ''+'' then (1, r) else (1, s1)
                        | [] \<Rightarrow> (1 :: int, s1));
          s3 = (if take 2 s2 = ''0x'' \<or> take 2 s2 = ''0X'' then drop 2 s2 else s2);
          ds = takeWhile (\<lambda>c. hex_digit_value c \<noteq> None) s3
      in if ds = [] then None
         else Some (sign * int (foldl (\<lambda>n c. 16 * n + the (hex_digit_value c)) 0 ds)))"

text \<open>
  \<^verbatim>\<open>hexToUint8Array\<close>: the array has \<open>length hex div 2\<close> elements (the length
  \<^verbatim>\<open>hex.length / 2\<close> of a typed array is truncated, and the store to the index
  beyond it is ignored); a \<^verbatim>\<open>NaN\<close> is stored as \<open>0\<close>.
\<close>

definition hexToUint8Array :: "string \<Rightarrow> byte list" where
  "hexToUint8Array hex =
     map (\<lambda>i. case parseInt16 (js_substr hex (int (i * 2)) 2) of
                 None \<Rightarrow> 0 | Some n \<Rightarrow> word_of_int n)
       [0..<length hex div 2]"

section \<open>Coercions\<close>

text \<open>
  Truthiness, and the conversions to a number and to a string that the primitive
  codecs apply to their argument, for the values where they are plain. A \<^verbatim>\<open>NaN\<close>
  is \<open>0\<close>: every consumer below takes the number through \<^verbatim>\<open>ToInt32\<close> or
  \<^verbatim>\<open>ToUint8\<close>.
\<close>

definition js_truthy :: "jvalue \<Rightarrow> bool" where
  "js_truthy v =
     (case v of JNull \<Rightarrow> False | JUndefined \<Rightarrow> False | JBool b \<Rightarrow> b | JNum n \<Rightarrow> n \<noteq> 0
      | JStr s \<Rightarrow> s \<noteq> [] | JArr xs \<Rightarrow> True | JObj kvs \<Rightarrow> True)"

definition js_ToNumber :: "jvalue \<Rightarrow> error + int" where
  "js_ToNumber v =
     (case v of JNum n \<Rightarrow> Inr n | JNull \<Rightarrow> Inr 0 | JUndefined \<Rightarrow> Inr 0
      | JBool b \<Rightarrow> Inr (if b then 1 else 0) | _ \<Rightarrow> Inl Unmodelled)"

definition js_ToString :: "jvalue \<Rightarrow> error + string" where
  "js_ToString v =
     (case v of JStr s \<Rightarrow> Inr s | JNum n \<Rightarrow> Inr (number_to_string n) | JNull \<Rightarrow> Inr ''null''
      | JUndefined \<Rightarrow> Inr ''undefined'' | JBool b \<Rightarrow> Inr (if b then ''true'' else ''false'')
      | _ \<Rightarrow> Inl Unmodelled)"

text \<open>Running a write or a read on the result of a conversion that can fail.\<close>

definition withW :: "error + 'a \<Rightarrow> ('a \<Rightarrow> (error + 'b) option) \<Rightarrow> (error + 'b) option" where
  "withW m f = (case m of Inl e \<Rightarrow> Some (Inl e) | Inr x \<Rightarrow> f x)"

text \<open>The argument when it is a string; the string methods of the source fail on others.\<close>

definition the_string :: "error \<Rightarrow> jvalue \<Rightarrow> error + string" where
  "the_string e v = (case v of JStr s \<Rightarrow> Inr s | _ \<Rightarrow> Inl e)"

text \<open>
  The operator \<^verbatim>\<open>in\<close> and the property read and write \<^verbatim>\<open>data[key]\<close>. On a
  primitive value \<^verbatim>\<open>in\<close> is a \<open>TypeError\<close>, and so is the write, as the source is in
  strict mode. An object has its own properties and inherits those of
  \<^verbatim>\<open>Object.prototype\<close>, whose values are not values of the model: for their names
  \<^verbatim>\<open>in\<close> is outside the model (\<open>Unmodelled\<close>) unless the object has an own property
  of that name. An array has its indices and \<^verbatim>\<open>length\<close>; every other name, and a
  write to an array, is outside the model. A write to \<^verbatim>\<open>__proto__\<close> does not create a
  property and is outside the model too. \<open>js_get\<close> reads an own property, and is
  \<^verbatim>\<open>undefined\<close> for another name: the source reads a property only after \<^verbatim>\<open>in\<close>
  has answered \<^verbatim>\<open>true\<close>, or reads \<^verbatim>\<open>length\<close>, which is not inherited.
\<close>

definition index_string :: "nat \<Rightarrow> string" where
  "index_string i = number_to_string (int i)"

definition object_prototype_names :: "string list" where
  "object_prototype_names =
     [''constructor'', ''__defineGetter__'', ''__defineSetter__'', ''hasOwnProperty'',
      ''__lookupGetter__'', ''__lookupSetter__'', ''isPrototypeOf'', ''propertyIsEnumerable'',
      ''toString'', ''valueOf'', ''__proto__'', ''toLocaleString'']"

definition own_properties :: "jvalue \<Rightarrow> error + (string \<times> jvalue) list" where
  "own_properties v =
     (case v of
        JObj kvs \<Rightarrow> Inr kvs
      | JArr xs \<Rightarrow> Inr (map (\<lambda>i. (index_string i, xs ! i)) [0..<length xs]
                        @ [(''length'', JNum (int (length xs)))])
      | _ \<Rightarrow> Inl TypeError)"

definition js_in :: "string \<Rightarrow> jvalue \<Rightarrow> error + bool" where
  "js_in key v =
     (case own_properties v of
        Inl e \<Rightarrow> Inl e
      | Inr kvs \<Rightarrow>
          if key \<in> fst ` set kvs then Inr True
          else case v of
                 JObj _ \<Rightarrow> if key \<in> set object_prototype_names then Inl Unmodelled else Inr False
               | _ \<Rightarrow> Inl Unmodelled)"

definition js_get :: "jvalue \<Rightarrow> string \<Rightarrow> jvalue" where
  "js_get v key =
     (case own_properties v of
        Inl e \<Rightarrow> JUndefined
      | Inr kvs \<Rightarrow> (case map_of kvs key of None \<Rightarrow> JUndefined | Some x \<Rightarrow> x))"

definition js_set :: "jvalue \<Rightarrow> string \<Rightarrow> jvalue \<Rightarrow> error + jvalue" where
  "js_set v key x =
     (case v of
        JObj kvs \<Rightarrow> if key = ''__proto__'' then Inl Unmodelled
                    else Inr (JObj (AList.update key x kvs))
      | JArr xs \<Rightarrow> Inl Unmodelled
      | _ \<Rightarrow> Inl TypeError)"

text \<open>
  \<^verbatim>\<open>data.length\<close> and the items that \<^verbatim>\<open>for (let item of data)\<close> visits. A string
  is iterated by character; a value that is neither an array nor a string is not
  iterable.
\<close>

definition js_length :: "jvalue \<Rightarrow> jvalue" where
  "js_length v = (case v of JStr s \<Rightarrow> JNum (int (length s)) | _ \<Rightarrow> js_get v ''length'')"

definition js_iterate :: "jvalue \<Rightarrow> error + jvalue list" where
  "js_iterate v =
     (case v of JArr xs \<Rightarrow> Inr xs | JStr s \<Rightarrow> Inr (map (\<lambda>c. JStr [c]) s) | _ \<Rightarrow> Inl TypeError)"
section \<open>Types\<close>

text \<open>
  A \<^verbatim>\<open>Type\<close> object lives in a heap and is referred to by its address: the schema
  compiler shares the objects between registries and updates them in place. The two
  function-valued properties hold a tag for the four functions of the source that use
  \<^verbatim>\<open>this\<close>, or the closure of a primitive type, which does not. The \<^verbatim>\<open>Field\<close>
  objects of a type belong to that type alone and are part of its record.
\<close>

type_synonym addr = nat

datatype serialize_fn =
    SerializeUnknown
  | SerializeStruct
  | SerializeArray
  | SerializeOptional
  | SerializePrim "SerialBuffer \<Rightarrow> jvalue \<Rightarrow> (error + SerialBuffer) option"

datatype deserialize_fn =
    DeserializeUnknown
  | DeserializeStruct
  | DeserializeArray
  | DeserializeOptional
  | DeserializePrim "SerialBuffer \<Rightarrow> error + (jvalue \<times> SerialBuffer)"

record Field =
  nameF :: string
  typeNameF :: string
  typeF :: "addr option"

record Type =
  nameT :: string
  aliasOfName :: string
  arrayOf :: "addr option"
  optionalOf :: "addr option"
  baseName :: string
  base :: "addr option"
  fieldsT :: "Field list"
  serialize :: serialize_fn
  deserialize :: deserialize_fn

type_synonym heap = "Type list"

text \<open>
  A reference of the source always denotes a live object. In the model an address can
  lie outside the heap; a call through such an address answers \<open>TypeError\<close>.
\<close>

definition heap_get :: "heap \<Rightarrow> addr \<Rightarrow> Type option" where
  "heap_get h a = (if a < length h then Some (h ! a) else None)"

definition alloc :: "heap \<Rightarrow> Type \<Rightarrow> addr \<times> heap" where
  "alloc h t = (length h, h @ [t])"

text \<open>
  \<^verbatim>\<open>createType(attrs)\<close> is the record of the defaults updated with \<open>attrs\<close>:
  \<open>createType\<lparr>nameT := n\<rparr>\<close>.
\<close>

definition createType :: Type where
  "createType =
     \<lparr>nameT = ''<missing name>'', aliasOfName = '''', arrayOf = None, optionalOf = None,
      baseName = '''', base = None, fieldsT = [],
      serialize = SerializeUnknown, deserialize = DeserializeUnknown\<rparr>"

subsection \<open>Calling the codec of a type\<close>

text \<open>
  \<open>call_serialize n h t buffer data\<close> is the call \<^verbatim>\<open>t.serialize(buffer, data)\<close> in heap
  \<open>h\<close>, and \<open>call_deserialize\<close> the call \<^verbatim>\<open>t.deserialize(buffer)\<close>. The calls follow
  the references of the heap, which can form a cycle (a struct that is its own base), so
  the depth of nested calls is bounded by \<open>n\<close>: \<open>None\<close> is the call that has not
  returned within that depth. The loops over the fields of a struct and over the items
  of an array are \<open>serializeStruct_fields\<close> and \<open>serializeArray_items\<close>.
\<close>

fun call_serialize :: "nat \<Rightarrow> heap \<Rightarrow> addr \<Rightarrow> SerialBuffer \<Rightarrow> jvalue \<Rightarrow> (error + SerialBuffer) option"
  and serializeStruct_fields ::
    "nat \<Rightarrow> heap \<Rightarrow> string \<Rightarrow> Field list \<Rightarrow> SerialBuffer \<Rightarrow> jvalue \<Rightarrow> (error + SerialBuffer) option"
  and serializeArray_items ::
    "nat \<Rightarrow> heap \<Rightarrow> addr option \<Rightarrow> jvalue list \<Rightarrow> SerialBuffer \<Rightarrow> (error + SerialBuffer) option"
where
  "call_serialize 0 h this buffer data = None"
| "call_serialize (Suc n) h this buffer data =
     (case heap_get h this of
        None \<Rightarrow> Some (Inl TypeError)
      | Some t \<Rightarrow>
          (case serialize t of
             SerializeUnknown \<Rightarrow> Some (Inl (DontKnowSerialize (nameT t)))
           | SerializePrim f \<Rightarrow> f buffer data
           | SerializeStruct \<Rightarrow>
               bindW (case base t of
                        None \<Rightarrow> Some (Inr buffer)
                      | Some b \<Rightarrow> call_serialize n h b buffer data)
                 (\<lambda>b1. serializeStruct_fields n h (nameT t) (fieldsT t) b1 data)
           | SerializeArray \<Rightarrow>
               (if data = JNull \<or> data = JUndefined then Some (Inl TypeError)
                else withW (js_ToNumber (js_length data))
                  (\<lambda>len. bindW (pushVaruint32 buffer len)
                     (\<lambda>b1. withW (js_iterate data)
                        (\<lambda>items. serializeArray_items n h (arrayOf t) items b1))))
           | SerializeOptional \<Rightarrow>
               (if data = JNull \<or> data = JUndefined then push buffer [0]
                else bindW (push buffer [1])
                  (\<lambda>b1. case optionalOf t of
                           None \<Rightarrow> Some (Inl TypeError)
                         | Some inner \<Rightarrow> call_serialize n h inner b1 data))))"
| "serializeStruct_fields n h this_name [] buffer data = Some (Inr buffer)"
| "serializeStruct_fields n h this_name (field # rest) buffer data =
     (case js_in (nameF field) data of
        Inl e \<Rightarrow> Some (Inl e)
      | Inr present \<Rightarrow>
          (case typeF field of
             None \<Rightarrow> Some (Inl TypeError)
           | Some ft \<Rightarrow>
               if \<not> present then
                 (case heap_get h ft of
                    None \<Rightarrow> Some (Inl TypeError)
                  | Some t \<Rightarrow> Some (Inl (MissingField this_name (nameF field) (nameT t))))
               else
                 bindW (call_serialize n h ft buffer (js_get data (nameF field)))
                   (\<lambda>b1. serializeStruct_fields n h this_name rest b1 data)))"
| "serializeArray_items n h element [] buffer = Some (Inr buffer)"
| "serializeArray_items n h element (item # rest) buffer =
     (case element of
        None \<Rightarrow> Some (Inl TypeError)
      | Some el \<Rightarrow>
          bindW (call_serialize n h el buffer item)
            (\<lambda>b1. serializeArray_items n h element rest b1))"

fun call_deserialize :: "nat \<Rightarrow> heap \<Rightarrow> addr \<Rightarrow> SerialBuffer \<Rightarrow> (error + jvalue \<times> SerialBuffer) option"
  and deserializeStruct_fields ::
    "nat \<Rightarrow> heap \<Rightarrow> Field list \<Rightarrow> jvalue \<Rightarrow> SerialBuffer \<Rightarrow> (error + jvalue \<times> SerialBuffer) option"
  and deserializeArray_items ::
    "nat \<Rightarrow> heap \<Rightarrow> addr option \<Rightarrow> nat \<Rightarrow> jvalue list \<Rightarrow> SerialBuffer
       \<Rightarrow> (error + jvalue \<times> SerialBuffer) option"
where
  "call_deserialize 0 h this buffer = None"
| "call_deserialize (Suc n) h this buffer =
     (case heap_get h this of
        None \<Rightarrow> Some (Inl TypeError)
      | Some t \<Rightarrow>
          (case deserialize t of
             DeserializeUnknown \<Rightarrow> Some (Inl (DontKnowDeserialize (nameT t)))
           | DeserializePrim f \<Rightarrow> Some (f buffer)
           | DeserializeStruct \<Rightarrow>
               bindW (case base t of
                        None \<Rightarrow> Some (Inr (JObj [], buffer))
                      | Some b \<Rightarrow> call_deserialize n h b buffer)
                 (\<lambda>(result, b1). deserializeStruct_fields n h (fieldsT t) result b1)
           | DeserializeArray \<Rightarrow>
               bindW (Some (getVaruint32 buffer))
                 (\<lambda>(len, b1). deserializeArray_items n h (arrayOf t) (nat len) [] b1)
           | DeserializeOptional \<Rightarrow>
               bindW (Some (get buffer))
                 (\<lambda>(flag, b1).
                    if flag \<noteq> None \<and> flag \<noteq> Some 0 then
                      (case optionalOf t of
                         None \<Rightarrow> Some (Inl TypeError)
                       | Some inner \<Rightarrow> call_deserialize n h inner b1)
                    else Some (Inr (JNull, b1)))))"
| "deserializeStruct_fields n h [] result buffer = Some (Inr (result, buffer))"
| "deserializeStruct_fields n h (field # rest) result buffer =
     (case typeF field of
        None \<Rightarrow> Some (Inl TypeError)
      | Some ft \<Rightarrow>
          bindW (call_deserialize n h ft buffer)
            (\<lambda>(v, b1).
               withW (js_set result (nameF field) v)
                 (\<lambda>result1. deserializeStruct_fields n h rest result1 b1)))"
| "deserializeArray_items n h element 0 result buffer = Some (Inr (JArr result, buffer))"
| "deserializeArray_items n h element (Suc k) result buffer =
     (case element of
        None \<Rightarrow> Some (Inl TypeError)
      | Some el \<Rightarrow>
          bindW (call_deserialize n h el buffer)
            (\<lambda>(v, b1). deserializeArray_items n h element k (result @ [v]) b1))"

section \<open>The built-in types\<close>

text \<open>
  \<^verbatim>\<open>stringToSymbol\<close> matches \<^verbatim>\<open>/^([0-9]+),([A-Z]+)$/\<close>; \<^verbatim>\<open>symbolToString\<close> is
  \<^verbatim>\<open>precision + ',' + name\<close>.
\<close>

definition is_upper :: "char \<Rightarrow> bool" where
  "is_upper c \<longleftrightarrow> of_char CHR ''A'' \<le> (of_char c :: nat) \<and> (of_char c :: nat) \<le> of_char CHR ''Z''"

definition stringToSymbol :: "string \<Rightarrow> error + string \<times> int" where
  "stringToSymbol s =
     (let ds = takeWhile is_digit s; r = dropWhile is_digit s
      in if ds \<noteq> [] \<and> take 1 r = '','' \<and> drop 1 r \<noteq> [] \<and> list_all is_upper (drop 1 r)
         then Inr (drop 1 r, int (digits_value ds))
         else Inl InvalidSymbol)"

definition symbolToString :: "string \<times> int \<Rightarrow> string" where
  "symbolToString symbol = (case symbol of (name, precision) \<Rightarrow> number_to_string precision @ '','' @ name)"

text \<open>
  The codecs of the primitive types are closures over the buffer operations. Their
  argument is converted as the operation converts it: \<^verbatim>\<open>push\<close> and the fixed-width
  writers take it to a number, \<^verbatim>\<open>'' + data\<close> to a string. Where the source calls a
  string method (\<^verbatim>\<open>trim\<close>, \<^verbatim>\<open>match\<close>) the argument that is not a string is a
  \<open>TypeError\<close>; where it hands the argument to a collaborator or to a loop over
  \<^verbatim>\<open>data.length\<close>, the argument that is not a string is outside the model
  (\<open>Unmodelled\<close>).
\<close>

definition returning :: "('a \<Rightarrow> jvalue) \<Rightarrow> error + 'a \<times> SerialBuffer \<Rightarrow> error + jvalue \<times> SerialBuffer" where
  "returning f r = bindR r (\<lambda>(x, b1). Inr (f x, b1))"

definition prim ::
  "string \<Rightarrow> (SerialBuffer \<Rightarrow> jvalue \<Rightarrow> (error + SerialBuffer) option)
     \<Rightarrow> (SerialBuffer \<Rightarrow> error + jvalue \<times> SerialBuffer) \<Rightarrow> Type" where
  "prim n s d = createType\<lparr>nameT := n, serialize := SerializePrim s, deserialize := DeserializePrim d\<rparr>"

definition bool_type :: Type where
  "bool_type = prim ''bool''
     (\<lambda>buffer data. push buffer [if js_truthy data then 1 else 0])
     (\<lambda>buffer. returning (\<lambda>x. JBool (x \<noteq> None \<and> x \<noteq> Some 0)) (get buffer))"

definition uint8_type :: Type where
  "uint8_type = prim ''uint8''
     (\<lambda>buffer data. withW (js_ToNumber data) (\<lambda>n. push buffer [n]))
     (\<lambda>buffer. returning (\<lambda>x. case x of None \<Rightarrow> JUndefined | Some y \<Rightarrow> JNum (uint y)) (get buffer))"

definition int8_type :: Type where
  "int8_type = prim ''int8''
     (\<lambda>buffer data. withW (js_ToNumber data) (\<lambda>n. push buffer [n]))
     (\<lambda>buffer. returning (\<lambda>x. JNum (sint (signed_drop_bit 24 (push_bit 24 (num_of x))))) (get buffer))"

definition uint16_type :: Type where
  "uint16_type = prim ''uint16''
     (\<lambda>buffer data. withW (js_ToNumber data) (pushUint16 buffer))
     (\<lambda>buffer. returning JNum (getUint16 buffer))"

definition int16_type :: Type where
  "int16_type = prim ''int16''
     (\<lambda>buffer data. withW (js_ToNumber data) (pushUint16 buffer))
     (\<lambda>buffer. returning (\<lambda>v. JNum (sint (signed_drop_bit 16 (push_bit 16 (word_of_int v :: 32 word)))))
        (getUint16 buffer))"

definition uint32_type :: Type where
  "uint32_type = prim ''uint32''
     (\<lambda>buffer data. withW (js_ToNumber data) (pushUint32 buffer))
     (\<lambda>buffer. returning JNum (getUint32 buffer))"

definition uint64_type :: "externals \<Rightarrow> Type" where
  "uint64_type ext = prim ''uint64''
     (\<lambda>buffer data. withW (js_ToString data) (\<lambda>s. withW (decimalToBinary ext 8 s) (pushArray buffer)))
     (\<lambda>buffer. returning (\<lambda>bs. JStr (binaryToDecimal ext bs 1)) (getUint8Array buffer 8))"

definition int64_type :: "externals \<Rightarrow> Type" where
  "int64_type ext = prim ''int64''
     (\<lambda>buffer data. withW (js_ToString data) (\<lambda>s. withW (signedDecimalToBinary ext 8 s) (pushArray buffer)))
     (\<lambda>buffer. returning (\<lambda>bs. JStr (signedBinaryToDecimal ext bs 1)) (getUint8Array buffer 8))"

definition int32_type :: Type where
  "int32_type = prim ''int32''
     (\<lambda>buffer data. withW (js_ToNumber data) (pushUint32 buffer))
     (\<lambda>buffer. returning (\<lambda>v. JNum (sint (word_of_int v :: 32 word))) (getUint32 buffer))"

definition varuint32_type :: Type where
  "varuint32_type = prim ''varuint32''
     (\<lambda>buffer data. withW (js_ToNumber data) (pushVaruint32 buffer))
     (\<lambda>buffer. returning JNum (getVaruint32 buffer))"

definition varint32_type :: Type where
  "varint32_type = prim ''varint32''
     (\<lambda>buffer data. withW (js_ToNumber data) (pushVarint32 buffer))
     (\<lambda>buffer. returning JNum (getVarint32 buffer))"

definition uint128_type :: "externals \<Rightarrow> Type" where
  "uint128_type ext = prim ''uint128''
     (\<lambda>buffer data. withW (the_string Unmodelled data)
        (\<lambda>s. withW (decimalToBinary ext 16 s) (pushArray buffer)))
     (\<lambda>buffer. returning (\<lambda>bs. JStr (binaryToDecimal ext bs 1)) (getUint8Array buffer 16))"

definition int128_type :: "externals \<Rightarrow> Type" where
  "int128_type ext = prim ''int128''
     (\<lambda>buffer data. withW (the_string Unmodelled data)
        (\<lambda>s. withW (signedDecimalToBinary ext 16 s) (pushArray buffer)))
     (\<lambda>buffer. returning (\<lambda>bs. JStr (signedBinaryToDecimal ext bs 1)) (getUint8Array buffer 16))"

definition float32_type :: "externals \<Rightarrow> Type" where
  "float32_type ext = prim ''float32'' (pushFloat32 ext) (getFloat32 ext)"

definition float64_type :: "externals \<Rightarrow> Type" where
  "float64_type ext = prim ''float64'' (pushFloat64 ext) (getFloat64 ext)"

text \<open>The types of a fixed number of bytes written in hexadecimal.\<close>

definition hex_type :: "string \<Rightarrow> nat \<Rightarrow> Type" where
  "hex_type n len = prim n
     (\<lambda>buffer data. withW (the_string Unmodelled data)
        (\<lambda>s. pushUint8ArrayChecked buffer (hexToUint8Array s) len))
     (\<lambda>buffer. returning (\<lambda>bs. JStr (arrayToHex bs)) (getUint8Array buffer len))"

definition bytes_type :: Type where
  "bytes_type = prim ''bytes''
     (\<lambda>buffer data. withW (the_string Unmodelled data) (\<lambda>s. pushBytes buffer (hexToUint8Array s)))
     (\<lambda>buffer. returning (\<lambda>bs. JStr (arrayToHex bs)) (getBytes buffer))"

definition string_type :: Type where
  "string_type = prim ''string''
     (\<lambda>buffer data. withW (the_string Unmodelled data) (pushString buffer))
     (\<lambda>buffer. returning JStr (getString buffer))"

definition name_type :: Type where
  "name_type = prim ''name''
     (\<lambda>buffer data. withW (the_string Unmodelled data) (pushName buffer))
     (\<lambda>buffer. returning JStr (getName buffer))"

definition time_point_type :: "externals \<Rightarrow> Type" where
  "time_point_type ext = prim ''time_point''
     (\<lambda>buffer data. withW (the_string Unmodelled data)
        (\<lambda>s. pushNumberAsUint64 buffer (dateToTimePoint ext s)))
     (\<lambda>buffer. bindR (getUint64AsNumber buffer) (\<lambda>(v, b1). returning JStr (map_sum id (\<lambda>s. (s, b1)) (timePointToDate ext v))))"

definition time_point_sec_type :: "externals \<Rightarrow> Type" where
  "time_point_sec_type ext = prim ''time_point_sec''
     (\<lambda>buffer data. withW (the_string Unmodelled data)
        (\<lambda>s. pushUint32 buffer (dateToTimePointSec ext s)))
     (\<lambda>buffer. bindR (getUint32 buffer) (\<lambda>(v, b1). returning JStr (map_sum id (\<lambda>s. (s, b1)) (timePointSecToDate ext v))))"

definition block_timestamp_type :: "externals \<Rightarrow> Type" where
  "block_timestamp_type ext = prim ''block_timestamp_type''
     (\<lambda>buffer data. withW (the_string Unmodelled data)
        (\<lambda>s. pushUint32 buffer (dateToBlockTimestamp ext s)))
     (\<lambda>buffer. bindR (getUint32 buffer) (\<lambda>(v, b1). returning JStr (map_sum id (\<lambda>s. (s, b1)) (blockTimestampToDate ext v))))"

definition symbol_code_type :: Type where
  "symbol_code_type = prim ''symbol_code''
     (\<lambda>buffer data. withW (the_string Unmodelled data) (pushSymbolCode buffer))
     (\<lambda>buffer. returning JStr (getSymbolCode buffer))"

definition symbol_type :: Type where
  "symbol_type = prim ''symbol''
     (\<lambda>buffer data. withW (the_string TypeError data)
        (\<lambda>s. withW (stringToSymbol s) (pushSymbol buffer)))
     (\<lambda>buffer. returning (\<lambda>symbol. JStr (symbolToString symbol)) (getSymbol buffer))"

definition asset_type :: "externals \<Rightarrow> Type" where
  "asset_type ext = prim ''asset''
     (\<lambda>buffer data. withW (the_string TypeError data) (pushAsset ext buffer))
     (\<lambda>buffer. returning JStr (getAsset ext buffer))"

definition public_key_type :: "externals \<Rightarrow> Type" where
  "public_key_type ext = prim ''public_key''
     (\<lambda>buffer data. withW (the_string Unmodelled data) (pushPublicKey ext buffer))
     (\<lambda>buffer. returning JStr (getPublicKey ext buffer))"

definition private_key_type :: "externals \<Rightarrow> Type" where
  "private_key_type ext = prim ''private_key''
     (\<lambda>buffer data. withW (the_string Unmodelled data) (pushPrivateKey ext buffer))
     (\<lambda>buffer. returning JStr (getPrivateKey ext buffer))"

definition signature_type :: "externals \<Rightarrow> Type" where
  "signature_type ext = prim ''signature''
     (\<lambda>buffer data. withW (the_string Unmodelled data) (pushSignature ext buffer))
     (\<lambda>buffer. returning JStr (getSignature ext buffer))"

text \<open>
  A registry (\<^verbatim>\<open>Map<string, Type>\<close>) is the list of its entries in insertion order,
  each a name and the address of a type object: \<^verbatim>\<open>get\<close> is \<open>map_of\<close>, \<^verbatim>\<open>set\<close> is
  \<open>AList.update\<close>, and \<^verbatim>\<open>new Map(m)\<close> is the same list, holding the same addresses.
\<close>

type_synonym registry = "(string \<times> addr) list"

text \<open>The objects of a list of entries, allocated in order.\<close>

definition alloc_entries :: "heap \<Rightarrow> (string \<times> Type) list \<Rightarrow> registry \<times> heap" where
  "alloc_entries h kts =
     (map (\<lambda>(i, kt). (fst kt, length h + i)) (enumerate 0 kts), h @ map snd kts)"

definition primitive_entries :: "externals \<Rightarrow> (string \<times> Type) list" where
  "primitive_entries ext =
     [(''bool'', bool_type),
      (''uint8'', uint8_type),
      (''int8'', int8_type),
      (''uint16'', uint16_type),
      (''int16'', int16_type),
      (''uint32'', uint32_type),
      (''uint64'', uint64_type ext),
      (''int64'', int64_type ext),
      (''int32'', int32_type),
      (''varuint32'', varuint32_type),
      (''varint32'', varint32_type),
      (''uint128'', uint128_type ext),
      (''int128'', int128_type ext),
      (''float32'', float32_type ext),
      (''float64'', float64_type ext),
      (''float128'', hex_type ''float128'' 16),
      (''bytes'', bytes_type),
      (''string'', string_type),
      (''name'', name_type),
      (''time_point'', time_point_type ext),
      (''time_point_sec'', time_point_sec_type ext),
      (''block_timestamp_type'', block_timestamp_type ext),
      (''symbol_code'', symbol_code_type),
      (''symbol'', symbol_type),
      (''asset'', asset_type ext),
      (''checksum160'', hex_type ''checksum160'' 20),
      (''checksum256'', hex_type ''checksum256'' 32),
      (''checksum512'', hex_type ''checksum512'' 64),
      (''public_key'', public_key_type ext),
      (''private_key'', private_key_type ext),
      (''signature'', signature_type ext)]"

text \<open>
  \<^verbatim>\<open>createInitialTypes()\<close> allocates its objects in the heap \<open>h\<close> and returns the
  registry with the heap. The fields of \<^verbatim>\<open>extended_asset\<close> refer to the objects of
  \<^verbatim>\<open>asset\<close> and \<^verbatim>\<open>name\<close> that it has just created.
\<close>

definition createInitialTypes :: "externals \<Rightarrow> heap \<Rightarrow> registry \<times> heap" where
  "createInitialTypes ext h =
     (let (result, h1) = alloc_entries h (primitive_entries ext);
          (a, h2) = alloc h1
            (createType\<lparr>nameT := ''extended_asset'', baseName := '''',
               fieldsT := [\<lparr>nameF = ''quantity'', typeNameF = ''asset'', typeF = map_of result ''asset''\<rparr>,
                           \<lparr>nameF = ''contract'', typeNameF = ''name'', typeF = map_of result ''name''\<rparr>],
               serialize := SerializeStruct, deserialize := DeserializeStruct\<rparr>)
      in (AList.update ''extended_asset'' a result, h2))"

section \<open>Resolving type names\<close>

text \<open>
  \<^verbatim>\<open>getType(types, name)\<close> in heap \<open>h\<close>. It follows an alias by calling itself, so a
  cycle of aliases never returns: the value is \<open>None\<close>. For a name with the suffix
  \<^verbatim>\<open>[]\<close> or \<^verbatim>\<open>?\<close> that has no entry it resolves the name without the suffix and
  creates a new object. It returns the address of the type with the heap.
\<close>

partial_function (option) getType :: "heap \<Rightarrow> registry \<Rightarrow> string \<Rightarrow> (error + addr \<times> heap) option" where
  "getType h types name =
     (case map_of types name of
        Some a \<Rightarrow>
          (case heap_get h a of
             None \<Rightarrow> Some (Inl TypeError)
           | Some t \<Rightarrow>
               if aliasOfName t \<noteq> '''' then getType h types (aliasOfName t)
               else Some (Inr (a, h)))
      | None \<Rightarrow>
          if endsWith name ''[]'' then
            Option.bind (getType h types (js_substr name 0 (int (length name) - 2)))
              (\<lambda>r. case r of
                 Inl e \<Rightarrow> Some (Inl e)
               | Inr (element, h1) \<Rightarrow>
                   Some (Inr (alloc h1 (createType\<lparr>nameT := name, arrayOf := Some element,
                     serialize := SerializeArray, deserialize := DeserializeArray\<rparr>))))
          else if endsWith name ''?'' then
            Option.bind (getType h types (js_substr name 0 (int (length name) - 1)))
              (\<lambda>r. case r of
                 Inl e \<Rightarrow> Some (Inl e)
               | Inr (inner, h1) \<Rightarrow>
                   Some (Inr (alloc h1 (createType\<lparr>nameT := name, optionalOf := Some inner,
                     serialize := SerializeOptional, deserialize := DeserializeOptional\<rparr>))))
          else Some (Inl (UnknownType name)))"

section \<open>Compiling a schema\<close>

text \<open>The part of an \<^verbatim>\<open>Abi\<close> that the compiler reads.\<close>

record AbiType =
  new_type_name :: string
  typeA :: string

record AbiField =
  nameAF :: string
  typeAF :: string

record AbiStruct =
  nameS :: string
  baseS :: string
  fieldsS :: "AbiField list"

record Abi =
  abi_types :: "AbiType list"
  abi_structs :: "AbiStruct list"

text \<open>The assignments \<^verbatim>\<open>type.base = r\<close> and \<^verbatim>\<open>field.type = r\<close> on the object at \<open>a\<close>.\<close>

definition set_base :: "heap \<Rightarrow> addr \<Rightarrow> addr \<Rightarrow> heap" where
  "set_base h a r = h[a := (h ! a)\<lparr>base := Some r\<rparr>]"

definition set_field_type :: "heap \<Rightarrow> addr \<Rightarrow> nat \<Rightarrow> addr \<Rightarrow> heap" where
  "set_field_type h a i r =
     h[a := (h ! a)\<lparr>fieldsT := (fieldsT (h ! a))[i := (fieldsT (h ! a) ! i)\<lparr>typeF := Some r\<rparr>]\<rparr>]"

definition declare_alias :: "registry \<times> heap \<Rightarrow> AbiType \<Rightarrow> registry \<times> heap" where
  "declare_alias s d =
     (case s of (types, h) \<Rightarrow>
        let (a, h1) = alloc h (createType\<lparr>nameT := new_type_name d, aliasOfName := typeA d\<rparr>)
        in (AList.update (new_type_name d) a types, h1))"

definition declare_struct :: "registry \<times> heap \<Rightarrow> AbiStruct \<Rightarrow> registry \<times> heap" where
  "declare_struct s d =
     (case s of (types, h) \<Rightarrow>
        let (a, h1) = alloc h
              (createType\<lparr>nameT := nameS d, baseName := baseS d,
                 fieldsT := map (\<lambda>f. \<lparr>nameF = nameAF f, typeNameF = typeAF f, typeF = None\<rparr>) (fieldsS d),
                 serialize := SerializeStruct, deserialize := DeserializeStruct\<rparr>)
        in (AList.update (nameS d) a types, h1))"

text \<open>
  The last loop of \<^verbatim>\<open>getTypesFromAbi\<close> visits every entry of \<open>types\<close>, the entries
  copied from \<open>initialTypes\<close> as well, and assigns to the object of each.
\<close>

fun resolve_fields :: "registry \<Rightarrow> addr \<Rightarrow> (nat \<times> Field) list \<Rightarrow> heap \<Rightarrow> (error + heap) option" where
  "resolve_fields types a [] h = Some (Inr h)"
| "resolve_fields types a ((i, field) # rest) h =
     bindW (getType h types (typeNameF field))
       (\<lambda>(r, h1). resolve_fields types a rest (set_field_type h1 a i r))"

fun resolve_types :: "registry \<Rightarrow> registry \<Rightarrow> heap \<Rightarrow> (error + heap) option" where
  "resolve_types types [] h = Some (Inr h)"
| "resolve_types types ((name, a) # rest) h =
     (case heap_get h a of
        None \<Rightarrow> Some (Inl TypeError)
      | Some t \<Rightarrow>
          bindW (if baseName t \<noteq> ''''
                 then bindW (getType h types (baseName t)) (\<lambda>(r, h1). Some (Inr (set_base h1 a r)))
                 else Some (Inr h))
            (\<lambda>h1. bindW (resolve_fields types a (enumerate 0 (fieldsT t)) h1)
               (\<lambda>h2. resolve_types types rest h2)))"

definition getTypesFromAbi :: "registry \<Rightarrow> Abi \<Rightarrow> heap \<Rightarrow> (error + registry \<times> heap) option" where
  "getTypesFromAbi initialTypes abi h =
     (let types = initialTypes;
          (types, h1) = foldl declare_alias (types, h) (abi_types abi);
          (types, h2) = foldl declare_struct (types, h1) (abi_structs abi)
      in bindW (resolve_types types types h2) (\<lambda>h3. Some (Inr (types, h3))))"

section \<open>Actions\<close>

record Contract =
  actions :: registry
  typesC :: registry

text \<open>
  \<^verbatim>\<open>serializeActionData\<close> and \<^verbatim>\<open>deserializeActionData\<close>, with the text codec of the
  caller. The binary \<open>data\<close> of the second is hexadecimal text or bytes; the text is
  converted before the action is looked up, and the conversion does not fail.
\<close>

definition serializeActionData ::
  "nat \<Rightarrow> heap \<Rightarrow> Contract \<Rightarrow> string \<Rightarrow> string \<Rightarrow> jvalue \<Rightarrow> (string \<Rightarrow> byte list)
     \<Rightarrow> (byte list \<Rightarrow> error + string) \<Rightarrow> (error + string) option" where
  "serializeActionData n h contract account name data enc dec =
     (case map_of (actions contract) name of
        None \<Rightarrow> Some (Inl (UnknownAction name account))
      | Some action \<Rightarrow>
          bindW (call_serialize n h action (new_SerialBuffer enc dec) data)
            (\<lambda>buffer. Some (Inr (arrayToHex (asUint8Array buffer)))))"

definition deserializeActionData ::
  "nat \<Rightarrow> heap \<Rightarrow> Contract \<Rightarrow> string \<Rightarrow> string \<Rightarrow> string + byte list \<Rightarrow> (string \<Rightarrow> byte list)
     \<Rightarrow> (byte list \<Rightarrow> error + string) \<Rightarrow> (error + jvalue) option" where
  "deserializeActionData n h contract account name data0 enc dec =
     (let data = (case data0 of Inl hex \<Rightarrow> hexToUint8Array hex | Inr bytes \<Rightarrow> bytes)
      in case map_of (actions contract) name of
           None \<Rightarrow> Some (Inl (UnknownAction name account))
         | Some action \<Rightarrow>
             bindW (pushArray (new_SerialBuffer enc dec) data)
               (\<lambda>buffer. bindW (call_deserialize n h action buffer) (\<lambda>(v, b1). Some (Inr v))))"

section \<open>Properties of the buffer\<close>

subsection \<open>The growth loop returns\<close>

lemma reserve_loop_returns:
  "0 < l \<Longrightarrow> \<exists>l'. reserve_loop need l = Some l' \<and> need \<le> l' \<and> l \<le> l'"
proof (induction "need - l" arbitrary: l rule: less_induct)
  case less
  show ?case
  proof (cases "need > l")
    case False
    then show ?thesis by (subst reserve_loop.simps) simp
  next
    case True
    let ?l = "(3 * l + 1) div 2"
    have "l < ?l" using less.prems by arith
    then have "need - ?l < need - l" "0 < ?l" using True by arith+
    from less.hyps [OF this] obtain l' where
      "reserve_loop need ?l = Some l'" "need \<le> l'" "?l \<le> l'" by blast
    with True \<open>l < ?l\<close> show ?thesis by (subst reserve_loop.simps) simp
  qed
qed

lemma reserve_loop_Some:
  assumes "reserve_loop need l = Some l'"
  shows "need \<le> l' \<and> l \<le> l'"
proof (rule reserve_loop.raw_induct [where P = "\<lambda>need l l'. need \<le> l' \<and> l \<le> l'", OF _ assms])
  fix f :: "nat \<Rightarrow> nat \<Rightarrow> nat option" and n k r
  assume IH: "\<And>a b y. f a b = Some y \<Longrightarrow> a \<le> y \<and> b \<le> y"
    and eq: "(if k < n then f n ((3 * k + 1) div 2) else Some k) = Some r"
  show "n \<le> r \<and> k \<le> r"
  proof (cases "k < n")
    case True
    with eq have "f n ((3 * k + 1) div 2) = Some r" by simp
    from IH [OF this] show ?thesis by arith
  next
    case False
    with eq show ?thesis by simp
  qed
qed

lemma reserve_Some:
  assumes "reserve b n = Some b1"
  shows "lengthB b1 = lengthB b" "readPos b1 = readPos b"
    "lengthB b + n \<le> length (arrayB b1)"
    "\<exists>k. arrayB b1 = arrayB b @ replicate k 0"
    "textEncoder b1 = textEncoder b" "textDecoder b1 = textDecoder b"
proof -
  show "lengthB b1 = lengthB b" "readPos b1 = readPos b"
    "textEncoder b1 = textEncoder b" "textDecoder b1 = textDecoder b"
    using assms by (auto simp: reserve_def split: if_splits)
  show "\<exists>k. arrayB b1 = arrayB b @ replicate k 0"
  proof (cases "lengthB b + n \<le> length (arrayB b)")
    case True
    with assms have "arrayB b1 = arrayB b @ replicate 0 0" by (simp add: reserve_def)
    then show ?thesis by blast
  next
    case False
    with assms show ?thesis by (auto simp: reserve_def)
  qed
  show "lengthB b + n \<le> length (arrayB b1)"
  proof (cases "lengthB b + n \<le> length (arrayB b)")
    case True
    with assms show ?thesis by (simp add: reserve_def)
  next
    case False
    with assms obtain l where l: "reserve_loop (lengthB b + n) (length (arrayB b)) = Some l"
      and b1: "b1 = b\<lparr>arrayB := arrayB b @ replicate (l - length (arrayB b)) 0\<rparr>"
      by (auto simp: reserve_def)
    have "lengthB b + n \<le> l"
      using reserve_loop_Some [OF l] by simp
    with b1 show ?thesis by simp
  qed
qed

lemma reserve_returns: "arrayB b \<noteq> [] \<Longrightarrow> \<exists>b1. reserve b n = Some b1"
  using reserve_loop_returns [of "length (arrayB b)" "lengthB b + n"]
  by (auto simp: reserve_def)

lemma pushArray_Inr:
  assumes "pushArray b v = Some (Inr b')"
  shows "lengthB b' = lengthB b + length v" "readPos b' = readPos b"
    "\<forall>i. i < lengthB b \<longrightarrow> i < length (arrayB b) \<longrightarrow> arrayB b' ! i = arrayB b ! i"
    "\<forall>i < length v. arrayB b' ! (lengthB b + i) = v ! i"
    "lengthB b' \<le> length (arrayB b')"
    "textEncoder b' = textEncoder b" "textDecoder b' = textDecoder b"
proof -
  from assms obtain b1 a where r: "reserve b (length v) = Some b1"
    and a: "array_set (arrayB b1) v (lengthB b1) = Some a"
    and b': "b' = b1\<lparr>arrayB := a, lengthB := lengthB b1 + length v\<rparr>"
    by (auto simp: pushArray_def split: option.splits)
  note rs = reserve_Some [OF r]
  from a have fit: "lengthB b1 + length v \<le> length (arrayB b1)"
    and a_def: "a = take (lengthB b1) (arrayB b1) @ v @ drop (lengthB b1 + length v) (arrayB b1)"
    by (auto simp: array_set_def split: if_splits)
  from rs(4) obtain k where k: "arrayB b1 = arrayB b @ replicate k 0" by blast
  show "lengthB b' = lengthB b + length v" "readPos b' = readPos b"
    "textEncoder b' = textEncoder b" "textDecoder b' = textDecoder b"
    using b' rs by simp_all
  show "\<forall>i. i < lengthB b \<longrightarrow> i < length (arrayB b) \<longrightarrow> arrayB b' ! i = arrayB b ! i"
    using b' a_def rs(1) k fit by (simp add: nth_append)
  show "\<forall>i < length v. arrayB b' ! (lengthB b + i) = v ! i"
    using b' a_def rs(1) fit by (simp add: nth_append)
  show "lengthB b' \<le> length (arrayB b')"
    using b' a_def rs(1) fit by simp
qed

lemma pushArray_returns:
  assumes "arrayB b \<noteq> []"
  shows "\<exists>b'. pushArray b v = Some (Inr b')"
proof -
  from reserve_returns [OF assms] obtain b1 where r: "reserve b (length v) = Some b1" by blast
  from reserve_Some(1,3) [OF r] have "lengthB b1 + length v \<le> length (arrayB b1)" by simp
  with r show ?thesis by (simp add: pushArray_def array_set_def)
qed

section \<open>Properties of varuint32 and varint32\<close>

subsection \<open>Bits of the constants\<close>

lemma bit_127_int [simp]: "bit (127 :: int) n \<longleftrightarrow> n < 7"
proof -
  have "(127 :: int) = mask 7" by (simp add: mask_eq_exp_minus_1)
  then show ?thesis by (simp only: bit_mask_iff) auto
qed

lemma bit_128_int [simp]: "bit (128 :: int) n \<longleftrightarrow> n = 7"
proof -
  have "(128 :: int) = 2 ^ 7" by simp
  then show ?thesis by (simp only: bit_exp_iff) (auto simp: bit_simps)
qed

lemma flag_byte_ucast: "(ucast (ucast (0x80 OR (w AND 0x7f) :: 32 word) :: 8 word) :: 32 word) = 0x80 OR (w AND 0x7f)"
  by (rule bit_word_eqI) (auto simp: bit_simps dest: bit_imp_le_length)

lemma flag_byte_payload: "(0x80 OR ((w::32 word) AND 0x7f)) AND 0x7f = w AND 0x7f"
  by (rule bit_word_eqI) (auto simp: bit_simps)

lemma flag_byte_flag: "(0x80 OR ((w::32 word) AND 0x7f)) AND 0x80 = 0x80"
  by (rule bit_word_eqI) (auto simp: bit_simps)

lemma push_bit_split7: "push_bit n ((w::32 word) AND 0x7f) OR push_bit (n + 7) (drop_bit 7 w) = push_bit n w"
proof (rule bit_word_eqI)
  fix m assume "m < LENGTH(32)"
  consider "m < n" | "n \<le> m" "m < n + 7" | "n + 7 \<le> m" by linarith
  then show "bit (push_bit n (w AND 0x7f) OR push_bit (n + 7) (drop_bit 7 w)) m = bit (push_bit n w) m"
  proof cases
    case 1 then show ?thesis by (simp add: bit_simps)
  next
    case 2 then show ?thesis by (auto simp: bit_simps)
  next
    case 3
    then have "7 + (m - (n + 7)) = m - n" by simp
    with 3 show ?thesis by (auto simp: bit_simps)
  qed
qed

lemma small_bits: "drop_bit 7 (w::32 word) = 0 \<Longrightarrow> bit w n \<Longrightarrow> n < 7"
proof (rule ccontr)
  assume z: "drop_bit 7 w = 0" and b: "bit w n" and "\<not> n < 7"
  then have "n = 7 + (n - 7)" by simp
  with b have "bit (drop_bit 7 w) (n - 7)" by (simp add: bit_drop_bit_eq)
  with z show False by simp
qed

lemma small_ucast: "drop_bit 7 (w::32 word) = 0 \<Longrightarrow> (ucast (ucast w :: 8 word) :: 32 word) = w"
  by (rule bit_word_eqI) (auto simp: bit_simps dest: small_bits)
lemma small_payload: "drop_bit 7 (w::32 word) = 0 \<Longrightarrow> w AND 0x7f = w"
  by (rule bit_word_eqI) (auto simp: bit_simps dest: small_bits)
lemma small_flag: "drop_bit 7 (w::32 word) = 0 \<Longrightarrow> w AND 0x80 = 0"
  by (rule bit_word_eqI) (auto simp: bit_simps dest: small_bits)
lemma bit_1_int[simp]: "bit (1::int) n \<longleftrightarrow> n = 0" by (simp add: bit_1_iff)
lemma bit_top [simp]: "bit (0x80000000 :: int) n \<longleftrightarrow> n = 31"
proof -
  have "(0x80000000 :: int) = 2 ^ 31" by simp
  then show ?thesis by (simp only: bit_exp_iff) (auto simp: bit_simps)
qed
lemma bit_double_word: "bit ((w::32 word) * 2) n \<longleftrightarrow> n \<noteq> 0 \<and> n < 32 \<and> bit w (n - 1)"
  using bit_double_iff [of w n] by (auto simp: mult.commute bit_simps dest: bit_imp_le_length)
lemma zigzag_low_bit: "((push_bit 1 (w::32 word) XOR signed_drop_bit 31 w) AND 1 \<noteq> 0) = bit w 31"
proof -
  have "bit ((push_bit 1 w XOR signed_drop_bit 31 w) AND 1) n = (n = 0 \<and> bit w 31)" for n
    by (auto simp: bit_simps bit_double_word)
  then show ?thesis
    by (auto simp: bit_eq_iff [where ?'a = "32 word"] simp del: push_bit_of_1)
qed
lemma zigzag_decode_neg: "bit (w::32 word) 31 \<Longrightarrow> signed_drop_bit 1 (NOT (push_bit 1 (w::32 word) XOR signed_drop_bit 31 w)) OR 0x80000000 = w"
proof (rule bit_word_eqI)
  fix n assume "bit w 31" "n < LENGTH(32)"
  then show "bit (signed_drop_bit 1 (NOT (push_bit 1 w XOR signed_drop_bit 31 w)) OR 0x80000000) n = bit w n"
    by (cases "n = 31") (auto simp: bit_simps bit_double_word)
qed
lemma zigzag_decode_pos: "\<not> bit (w::32 word) 31 \<Longrightarrow> drop_bit 1 (push_bit 1 (w::32 word) XOR signed_drop_bit 31 w) = w"
proof (rule bit_word_eqI)
  fix n assume "\<not> bit w 31" "n < LENGTH(32)"
  then show "bit (drop_bit 1 (push_bit 1 w XOR signed_drop_bit 31 w)) n = bit w n"
    using bit_imp_le_length [of w 63] by (cases "n = 31") (auto simp: bit_simps bit_double_word)
qed
lemma uint_eq_sint: "\<not> bit (w::32 word) 31 \<Longrightarrow> uint w = sint w"
  apply (rule bit_eqI)
  apply (auto simp: bit_sint_iff bit_uint_iff dest: bit_imp_le_length)
  done

subsection \<open>The bytes that pushVaruint32 appends\<close>

text \<open>
  \<open>varuint32_bytes w\<close> is the byte sequence of the loop of \<^verbatim>\<open>pushVaruint32\<close>,
  without the buffer; \<open>appended b bs b'\<close> says that \<open>b'\<close> is \<open>b\<close> with the bytes
  \<open>bs\<close> written at its end.
\<close>

function varuint32_bytes :: "32 word \<Rightarrow> byte list" where
  "varuint32_bytes w =
     (if drop_bit 7 w \<noteq> 0 then ucast (0x80 OR (w AND 0x7f)) # varuint32_bytes (drop_bit 7 w)
      else [ucast w])"
  by pat_completeness auto
termination
proof (relation "measure unat")
  fix w :: "32 word"
  assume nz: "drop_bit 7 w \<noteq> 0"
  have "unat (drop_bit 7 w) = unat w div 128" by (simp add: drop_bit_eq_div unat_div)
  moreover have "unat (drop_bit 7 w) \<noteq> 0" using nz by (simp add: unat_eq_0)
  ultimately show "(drop_bit 7 w, w) \<in> measure unat" by simp
qed simp

declare varuint32_bytes.simps [simp del]

definition appended :: "SerialBuffer \<Rightarrow> byte list \<Rightarrow> SerialBuffer \<Rightarrow> bool" where
  "appended b bs b' \<longleftrightarrow>
     lengthB b' = lengthB b + length bs \<and> readPos b' = readPos b \<and>
     lengthB b' \<le> length (arrayB b') \<and>
     (\<forall>i. i < lengthB b \<longrightarrow> i < length (arrayB b) \<longrightarrow> arrayB b' ! i = arrayB b ! i) \<and>
     (\<forall>i < length bs. arrayB b' ! (lengthB b + i) = bs ! i) \<and>
     textEncoder b' = textEncoder b \<and> textDecoder b' = textDecoder b"

lemma pushArray_appended: "pushArray b v = Some (Inr b') \<Longrightarrow> appended b v b'"
  using pushArray_Inr [of b v b'] by (simp add: appended_def)

lemma appended_trans:
  assumes 1: "appended b xs b1" and 2: "appended b1 ys b2"
  shows "appended b (xs @ ys) b2"
proof -
  have old: "arrayB b2 ! i = arrayB b ! i" if "i < lengthB b" "i < length (arrayB b)" for i
  proof -
    from that 1 have "arrayB b1 ! i = arrayB b ! i" "i < lengthB b1" "i < length (arrayB b1)"
      by (auto simp: appended_def)
    with 2 show ?thesis by (auto simp: appended_def)
  qed
  have new: "arrayB b2 ! (lengthB b + i) = (xs @ ys) ! i" if "i < length (xs @ ys)" for i
  proof (cases "i < length xs")
    case True
    with 1 have "arrayB b1 ! (lengthB b + i) = xs ! i" "lengthB b + i < lengthB b1"
      "lengthB b + i < length (arrayB b1)"
      by (auto simp: appended_def)
    with 2 True show ?thesis by (auto simp: appended_def nth_append)
  next
    case False
    with that have "i - length xs < length ys" by simp
    with 2 have "arrayB b2 ! (lengthB b1 + (i - length xs)) = ys ! (i - length xs)"
      by (auto simp: appended_def)
    moreover from 1 False have "lengthB b1 + (i - length xs) = lengthB b + i"
      by (auto simp: appended_def)
    ultimately show ?thesis using False by (simp add: nth_append)
  qed
  from 1 2 old new show ?thesis unfolding appended_def by simp
qed

lemma pushArray_no_error: "pushArray b v \<noteq> Some (Inl e)"
proof
  assume a: "pushArray b v = Some (Inl e)"
  then obtain b1 where r: "reserve b (length v) = Some b1"
    by (auto simp: pushArray_def split: option.splits)
  from reserve_Some(1,3) [OF r] have "lengthB b1 + length v \<le> length (arrayB b1)" by simp
  with a r show False by (simp add: pushArray_def array_set_def)
qed

lemma word8_of_int: "(word_of_int v :: 8 word) = ucast (word_of_int v :: 32 word)"
  by (rule bit_word_eqI) (auto simp: bit_simps)

lemma pushVaruint32_appended:
  "pushVaruint32 b v = Some (Inr b') \<Longrightarrow> appended b (varuint32_bytes (word_of_int v)) b'"
proof (induction b v arbitrary: b' rule: pushVaruint32.induct)
  case (1 b v)
  let ?w = "word_of_int v :: 32 word"
  show ?case
  proof (cases "drop_bit 7 ?w \<noteq> 0")
    case True
    from "1.prems" True obtain b1 where
      p: "push b [uint (0x80 OR (?w AND 0x7f))] = Some (Inr b1)"
      and r: "pushVaruint32 b1 (uint (drop_bit 7 ?w)) = Some (Inr b')"
      by (subst (asm) pushVaruint32.simps) (auto simp: bindW_def split: option.splits sum.splits)
    from p have "appended b [ucast (0x80 OR (?w AND 0x7f))] b1"
      by (auto simp: push_def dest!: pushArray_appended)
    moreover from "1.IH" [OF True p r]
    have "appended b1 (varuint32_bytes (drop_bit 7 ?w)) b'" by simp
    ultimately show ?thesis
      using True appended_trans by (subst varuint32_bytes.simps) fastforce
  next
    case False
    with "1.prems" have "push b [v] = Some (Inr b')"
      by (subst (asm) pushVaruint32.simps) simp
    then have "appended b [ucast ?w] b'"
      by (auto simp: push_def word8_of_int dest!: pushArray_appended)
    with False show ?thesis by (subst varuint32_bytes.simps) simp
  qed
qed

lemma pushVaruint32_returns:
  "arrayB b \<noteq> [] \<Longrightarrow> \<exists>b'. pushVaruint32 b v = Some (Inr b')"
proof (induction b v rule: pushVaruint32.induct)
  case (1 b v)
  let ?w = "word_of_int v :: 32 word"
  show ?case
  proof (cases "drop_bit 7 ?w \<noteq> 0")
    case True
    from pushArray_returns [OF "1.prems"] obtain b1 where
      p: "push b [uint (0x80 OR (?w AND 0x7f))] = Some (Inr b1)"
      unfolding push_def by blast
    then have "appended b [ucast (0x80 OR (?w AND 0x7f))] b1"
      by (auto simp: push_def dest!: pushArray_appended)
    then have "arrayB b1 \<noteq> []" by (auto simp: appended_def)
    from "1.IH" [OF True p this] p True show ?thesis
      by (subst pushVaruint32.simps) simp
  next
    case False
    with pushArray_returns [OF "1.prems"] show ?thesis
      by (subst pushVaruint32.simps) (simp add: push_def)
  qed
qed

subsection \<open>Decoding what was encoded\<close>

lemma get_in_range:
  "readPos b < lengthB b \<Longrightarrow> lengthB b \<le> length (arrayB b) \<Longrightarrow>
   get b = Inr (Some (arrayB b ! readPos b), b\<lparr>readPos := readPos b + 1\<rparr>)"
  by (simp add: get_def byteAt_def)

lemma varuint32_bytes_nonempty: "varuint32_bytes w \<noteq> []"
  by (subst varuint32_bytes.simps) simp

lemma getVaruint32_loop_step:
  "get b = Inr (x, b1) \<Longrightarrow>
   getVaruint32_loop b v k =
     (if num_of x AND 0x80 = 0
      then Inr (uint (v OR push_bit (k mod 32) (num_of x AND 0x7f)), b1)
      else getVaruint32_loop b1 (v OR push_bit (k mod 32) (num_of x AND 0x7f)) (k + 7))"
  by (subst getVaruint32_loop.simps) (simp add: Let_def)

lemma drop7_bound:
  assumes "7 * k < 32" "unat (w :: 32 word) < 2 ^ (32 - 7 * k)" "drop_bit 7 w \<noteq> 0"
  shows "7 * (k + 1) < 32 \<and> unat (drop_bit 7 w) < 2 ^ (32 - 7 * (k + 1))"
proof -
  have d: "unat (drop_bit 7 w) = unat w div 128" by (simp add: drop_bit_eq_div unat_div)
  moreover have "unat (drop_bit 7 w) \<noteq> 0" using assms(3) by (simp add: unat_eq_0)
  ultimately have big: "128 \<le> unat w" by (simp add: div_eq_0_iff)
  from assms(1) have "k = 0 \<or> k = 1 \<or> k = 2 \<or> k = 3 \<or> k = 4" by arith
  then show ?thesis using assms(2) big d by (elim disjE) simp_all
qed

lemma getVaruint32_loop_decodes:
  assumes "7 * k < 32" "unat w < 2 ^ (32 - 7 * k)"
    and "readPos b + length (varuint32_bytes w) \<le> lengthB b" "lengthB b \<le> length (arrayB b)"
    and "\<forall>i < length (varuint32_bytes w). arrayB b ! (readPos b + i) = varuint32_bytes w ! i"
  shows "getVaruint32_loop b acc (7 * k) =
    Inr (uint (acc OR push_bit (7 * k) w), b\<lparr>readPos := readPos b + length (varuint32_bytes w)\<rparr>)"
  using assms
proof (induction w arbitrary: b acc k rule: varuint32_bytes.induct)
  case (1 w)
  have ne: "readPos b < lengthB b"
    using "1.prems"(3) varuint32_bytes_nonempty [of w] by (cases "varuint32_bytes w") auto
  note g = get_in_range [OF ne "1.prems"(4)]
  have hd: "arrayB b ! readPos b = varuint32_bytes w ! 0"
    using "1.prems"(5) varuint32_bytes_nonempty [of w] by (cases "varuint32_bytes w") auto
  have m: "7 * k mod 32 = 7 * k" using "1.prems"(1) by simp
  show ?case
  proof (cases "drop_bit 7 w \<noteq> 0")
    case True
    let ?x = "ucast (0x80 OR (w AND 0x7f)) :: byte"
    let ?b1 = "b\<lparr>readPos := readPos b + 1\<rparr>"
    let ?acc = "acc OR push_bit (7 * k) (w AND 0x7f)"
    have bs: "varuint32_bytes w = ?x # varuint32_bytes (drop_bit 7 w)"
      using True by (subst varuint32_bytes.simps) simp
    from drop7_bound [OF "1.prems"(1,2) True]
    have k1: "7 * (k + 1) < 32" "unat (drop_bit 7 w) < 2 ^ (32 - 7 * (k + 1))" by auto
    have p3: "readPos ?b1 + length (varuint32_bytes (drop_bit 7 w)) \<le> lengthB ?b1"
      using "1.prems"(3) bs by simp
    have p4: "lengthB ?b1 \<le> length (arrayB ?b1)" using "1.prems"(4) by simp
    have p5: "\<forall>i < length (varuint32_bytes (drop_bit 7 w)).
        arrayB ?b1 ! (readPos ?b1 + i) = varuint32_bytes (drop_bit 7 w) ! i"
    proof (intro allI impI)
      fix i assume "i < length (varuint32_bytes (drop_bit 7 w))"
      then have "Suc i < length (varuint32_bytes w)" using bs by simp
      with "1.prems"(5) have "arrayB b ! (readPos b + Suc i) = varuint32_bytes w ! Suc i" by blast
      then show "arrayB ?b1 ! (readPos ?b1 + i) = varuint32_bytes (drop_bit 7 w) ! i"
        using bs by simp
    qed
    from "1.IH" [OF True k1 p3 p4 p5, of ?acc]
    have IH: "getVaruint32_loop ?b1 ?acc (7 * k + 7) =
      Inr (uint (?acc OR push_bit (7 * k + 7) (drop_bit 7 w)),
        b\<lparr>readPos := readPos b + length (varuint32_bytes w)\<rparr>)"
      using bs by (simp add: add.commute)
    have "?acc OR push_bit (7 * k + 7) (drop_bit 7 w) = acc OR push_bit (7 * k) w"
      using push_bit_split7 [of "7 * k" w] by (simp add: or.assoc)
    moreover have g': "get b = Inr (Some ?x, ?b1)" using g hd bs by simp
    have n1: "num_of (Some ?x) AND 0x7f = w AND 0x7f" by (simp add: num_of_def flag_byte_ucast flag_byte_payload)
    have n2: "num_of (Some ?x) AND 0x80 \<noteq> 0" by (simp add: num_of_def flag_byte_ucast flag_byte_flag)
    have "getVaruint32_loop b acc (7 * k) = getVaruint32_loop ?b1 ?acc (7 * k + 7)"
      by (simp only: getVaruint32_loop_step [OF g'] n1 n2 m if_False)
    ultimately show ?thesis using IH by (simp only:)
  next
    case False
    then have z: "drop_bit 7 w = 0" by simp
    have bs: "varuint32_bytes w = [ucast w]"
      using False by (subst varuint32_bytes.simps) simp
    have g': "get b = Inr (Some (ucast w), b\<lparr>readPos := readPos b + 1\<rparr>)"
      using g hd bs by simp
    have n1: "num_of (Some (ucast w :: byte)) AND 0x7f = w" by (simp add: num_of_def small_ucast [OF z] small_payload [OF z])
    have n2: "num_of (Some (ucast w :: byte)) AND 0x80 = 0" by (simp add: num_of_def small_ucast [OF z] small_flag [OF z])
    show ?thesis
      by (simp only: getVaruint32_loop_step [OF g'] n1 n2 m if_True bs) simp
  qed
qed

lemma byte_flag_set: "(ucast (0x80 OR ((w :: 32 word) AND 0x7f)) :: byte) AND 0x80 \<noteq> 0"
proof -
  have "bit ((ucast (0x80 OR (w AND 0x7f)) :: byte) AND 0x80) 7" by (simp add: bit_simps)
  then show ?thesis by (auto simp del: bit_simps)
qed

lemma byte_flag_clear: "drop_bit 7 (w :: 32 word) = 0 \<Longrightarrow> (ucast w :: byte) AND 0x80 = 0"
  by (rule bit_word_eqI) (auto simp: bit_simps dest: small_bits)

definition minimal_varuint :: "byte list \<Rightarrow> nat \<Rightarrow> bool" where
  "minimal_varuint bs v \<longleftrightarrow>
     bs \<noteq> [] \<and> last bs AND 0x80 = 0 \<and> (\<forall>x \<in> set (butlast bs). x AND 0x80 \<noteq> 0) \<and>
     v < 2 ^ (7 * length bs) \<and> (1 < length bs \<longrightarrow> 2 ^ (7 * (length bs - 1)) \<le> v)"

lemma varuint32_bytes_minimal: "minimal_varuint (varuint32_bytes w) (unat w)"
proof (induction w rule: varuint32_bytes.induct)
  case (1 w)
  show ?case
  proof (cases "drop_bit 7 w \<noteq> 0")
    case True
    let ?r = "varuint32_bytes (drop_bit 7 w)"
    have bs: "varuint32_bytes w = ucast (0x80 OR (w AND 0x7f)) # ?r"
      using True by (subst varuint32_bytes.simps) simp
    have d: "unat (drop_bit 7 w) = unat w div 128" by (simp add: drop_bit_eq_div unat_div)
    moreover have "unat (drop_bit 7 w) \<noteq> 0" using True by (simp add: unat_eq_0)
    ultimately have big: "128 \<le> unat w" by (simp add: div_eq_0_iff)
    from "1.IH" [OF True] have IH: "minimal_varuint ?r (unat w div 128)" by (simp add: d)
    then have ne: "?r \<noteq> []" by (simp add: minimal_varuint_def)
    have up: "unat w < 2 ^ (7 * length (varuint32_bytes w))"
    proof -
      from IH have "unat w div 128 < 2 ^ (7 * length ?r)" by (simp add: minimal_varuint_def)
      then have "unat w < 128 * 2 ^ (7 * length ?r)" by (simp add: less_mult_imp_div_less div_less_iff_less_mult)
      then show ?thesis by (simp add: bs power_add)
    qed
    have lo: "2 ^ (7 * (length (varuint32_bytes w) - 1)) \<le> unat w"
    proof (cases "1 < length ?r")
      case True
      with IH have "2 ^ (7 * (length ?r - 1)) \<le> unat w div 128" by (simp add: minimal_varuint_def)
      then have "128 * 2 ^ (7 * (length ?r - 1)) \<le> unat w" by (simp add: less_eq_div_iff_mult_less_eq)
      moreover have "(128::nat) * 2 ^ (7 * (length ?r - 1)) = 2 ^ (7 * length ?r)"
        using True by (cases "length ?r") (simp_all add: power_add)
      ultimately show ?thesis by (simp add: bs)
    next
      case False
      with ne have "length ?r = 1" by (cases ?r) auto
      with big show ?thesis by (simp add: bs)
    qed
    from IH ne up lo show ?thesis
      by (simp add: minimal_varuint_def bs byte_flag_set)
  next
    case False
    then have z: "drop_bit 7 w = 0" by simp
    have bs: "varuint32_bytes w = [ucast w]"
      using False by (subst varuint32_bytes.simps) simp
    have "unat (drop_bit 7 w) = unat w div 128" by (simp add: drop_bit_eq_div unat_div)
    with z have "unat w < 128" by (simp add: div_eq_0_iff)
    then show ?thesis by (simp add: minimal_varuint_def bs byte_flag_clear [OF z])
  qed
qed


definition written_since :: "SerialBuffer \<Rightarrow> SerialBuffer \<Rightarrow> byte list" where
  "written_since b b' = take (lengthB b' - lengthB b) (drop (lengthB b) (arrayB b'))"

lemma appended_written_since: "appended b bs b' \<Longrightarrow> written_since b b' = bs"
  by (rule nth_equalityI) (auto simp: appended_def written_since_def)

lemma appended_decode:
  assumes a: "appended b (varuint32_bytes w) b'"
  shows "getVaruint32 (b'\<lparr>readPos := lengthB b\<rparr>) = Inr (uint w, b'\<lparr>readPos := lengthB b'\<rparr>)"
proof -
  let ?b = "b'\<lparr>readPos := lengthB b\<rparr>"
  have "getVaruint32_loop ?b 0 (7 * 0) =
    Inr (uint (0 OR push_bit (7 * 0) w), ?b\<lparr>readPos := readPos ?b + length (varuint32_bytes w)\<rparr>)"
    using unsigned_less [of w, where ?'a = nat]
    by (intro getVaruint32_loop_decodes) (use a in \<open>auto simp: appended_def\<close>)
  with a show ?thesis by (simp add: getVaruint32_def appended_def)
qed

lemma uint_word_of_int_small:
  "0 \<le> k \<Longrightarrow> k < 2 ^ 32 \<Longrightarrow> uint (word_of_int k :: 32 word) = k"
  by (simp add: uint_word_of_int_eq take_bit_int_eq_self)

lemma bit_sdb31: "bit (signed_drop_bit 31 (w :: 32 word)) n \<longleftrightarrow> n < 32 \<and> bit w 31"
proof (cases "n = 0")
  case True
  then show ?thesis by (simp add: bit_simps)
next
  case False
  then show ?thesis
    using bit_imp_le_length [of w "31 + n"] by (cases "n < 32") (auto simp: bit_simps)
qed

lemma zigzag_value:
  fixes w :: "32 word"
  shows "uint (push_bit 1 w XOR signed_drop_bit 31 w) = (if 0 \<le> sint w then 2 * sint w else - 2 * sint w - 1)"
proof -
  define k where "k = sint w"
  have neg: "bit w 31 = (k < 0)" using bit_last_iff [of w] by (simp add: k_def)
  have range: "- (2 ^ 31) \<le> k" "k < 2 ^ 31"
    using sint_ge [of w] sint_lt [of w] by (simp_all add: k_def)
  have p: "push_bit 1 w = word_of_int (2 * k)"
    by (simp add: push_bit_eq_mult k_def)
  have "uint (push_bit 1 w XOR signed_drop_bit 31 w) = (if 0 \<le> k then 2 * k else - 2 * k - 1)"
  proof (cases "bit w 31")
    case False
    have "signed_drop_bit 31 w = 0"
      using False by (intro bit_word_eqI) (simp add: bit_sdb31)
    then have "push_bit 1 w XOR signed_drop_bit 31 w = word_of_int (2 * k)"
      by (simp only: p xor.right_neutral)
    moreover have "uint (word_of_int (2 * k) :: 32 word) = 2 * k"
      using False neg range by (intro uint_word_of_int_small) auto
    ultimately show ?thesis using False neg by (simp only:) simp
  next
    case True
    have "signed_drop_bit 31 w = - 1"
      using True by (intro bit_word_eqI) (simp add: bit_sdb31)
    then have "push_bit 1 w XOR signed_drop_bit 31 w = NOT (word_of_int (2 * k))"
      by (simp only: p) simp
    also have "\<dots> = word_of_int (- 2 * k - 1)"
      by (simp add: not_eq_complement)
    finally have "push_bit 1 w XOR signed_drop_bit 31 w = word_of_int (- 2 * k - 1)" .
    moreover have "uint (word_of_int (- 2 * k - 1) :: 32 word) = - 2 * k - 1"
      using True neg range by (intro uint_word_of_int_small) auto
    ultimately show ?thesis using True neg by (simp only:) simp
  qed
  then show ?thesis by (simp only: k_def)
qed

lemma sint_word_of_int_small:
  "- (2 ^ 31) \<le> s \<Longrightarrow> s < 2 ^ 31 \<Longrightarrow> sint (word_of_int s :: 32 word) = s"
  by (simp add: sint_uint signed_take_bit_int_eq_self_iff [THEN iffD2] signed_take_bit_take_bit uint_word_of_int_eq)

lemma getVarint32_zigzag:
  fixes w :: "32 word"
  assumes "getVaruint32 b = Inr (uint (push_bit 1 w XOR signed_drop_bit 31 w), b1)"
  shows "getVarint32 b = Inr (sint w, b1)"
proof -
  define z where "z = push_bit 1 w XOR signed_drop_bit 31 w"
  have a: "getVaruint32 b = Inr (uint z, b1)" using assms by (simp only: z_def)
  have wz: "word_of_int (uint z) = z" by simp
  have step: "getVarint32 b =
    (if z AND 1 \<noteq> 0 then Inr (sint (signed_drop_bit 1 (NOT z) OR 0x80000000), b1)
     else Inr (uint (drop_bit 1 z), b1))"
    by (simp only: getVarint32_def a bindR_simps case_prod_conv wz)
  show ?thesis
  proof (cases "bit w 31")
    case True
    have "z AND 1 \<noteq> 0" unfolding z_def using True zigzag_low_bit [of w] by blast
    moreover have "signed_drop_bit 1 (NOT z) OR 0x80000000 = w"
      using zigzag_decode_neg [OF True] by (simp only: z_def)
    ultimately show ?thesis by (simp only: step) simp
  next
    case False
    have "z AND 1 = 0" unfolding z_def using False zigzag_low_bit [of w] by blast
    moreover have "drop_bit 1 z = w" using zigzag_decode_pos [OF False] by (simp only: z_def)
    ultimately show ?thesis by (simp only: step uint_eq_sint [OF False]) simp
  qed
qed

section \<open>Properties of the packed identifier\<close>

text \<open>
  \<open>abit a p\<close> is bit \<open>p\<close> of the 64 bits of an 8-byte array, as both loops index
  it: byte \<open>p div 8\<close>, bit \<open>p mod 8\<close>.
\<close>

definition abit :: "byte list \<Rightarrow> nat \<Rightarrow> bool" where
  "abit a p = bit (a ! (p div 8)) (p mod 8)"

lemma abit_eqI:
  assumes "length a = 8" "length A = 8" "\<And>p. p < 64 \<Longrightarrow> abit A p = abit a p"
  shows "A = a"
proof (rule nth_equalityI)
  show "length A = length a" using assms by simp
next
  fix i assume i: "i < length A"
  show "A ! i = a ! i"
  proof (rule bit_word_eqI)
    fix n assume n: "n < LENGTH(8)"
    from i n assms(2) have "8 * i + n < 64" by simp
    from assms(3) [OF this] n show "bit (A ! i) n = bit (a ! i) n"
      by (simp add: abit_def)
  qed
qed

lemma read_bit: "unat (drop_bit k (x :: byte)) AND 1 = of_bool (bit x k)"
proof -
  have "odd (unat (drop_bit k x)) = bit (unat (drop_bit k x)) 0" by (simp add: bit_0)
  also have "\<dots> = bit (drop_bit k x) 0" by (simp add: bit_unsigned_iff)
  also have "\<dots> = bit x k" by (simp add: bit_drop_bit_eq)
  finally show ?thesis by (simp add: and_one_eq mod_2_eq_odd)
qed

lemma shift_in_eq: "push_bit 1 (c :: nat) OR of_bool b = 2 * c + of_bool b"
proof (cases b)
  case True
  have "(2 * c) OR (1 :: nat) = 2 * c + of_bool (even (2 * c))" by (rule or_one_eq)
  with True show ?thesis by (simp add: push_bit_eq_mult mult.commute)
next
  case False
  then show ?thesis by (simp add: push_bit_eq_mult)
qed

lemma bit_shift_in:
  "bit (2 * (c :: nat) + of_bool b) i = (if i = 0 then b else bit c (i - 1))"
proof (cases i)
  case 0
  then show ?thesis by (simp add: bit_0)
next
  case (Suc n)
  have "(2 * c + of_bool b) div 2 = c" by simp
  with Suc show ?thesis by (simp add: bit_Suc)
qed

lemma getName_bits_step:
  "0 \<le> bitpos \<Longrightarrow>
   getName_bits a bitpos c (Suc n) =
     getName_bits a (bitpos - 1) (2 * c + of_bool (abit a (nat bitpos))) n"
proof -
  assume p: "0 \<le> bitpos"
  have "nat (bitpos div 8) = nat bitpos div 8" "nat (bitpos mod 8) = nat bitpos mod 8"
    using p by (simp_all add: nat_div_distrib nat_mod_distrib)
  then have "push_bit 1 c OR (unat (drop_bit (nat (bitpos mod 8)) (a ! nat (bitpos div 8))) AND 1)
      = 2 * c + of_bool (abit a (nat bitpos))"
    by (simp only: read_bit shift_in_eq abit_def)
  moreover have "getName_bits a bitpos c (Suc n) = getName_bits a (bitpos - 1)
      (push_bit 1 c OR (unat (drop_bit (nat (bitpos mod 8)) (a ! nat (bitpos div 8))) AND 1)) n"
    using p by (simp only: getName_bits.simps if_True)
  ultimately show ?thesis by (simp only:)
qed

lemma getName_bits_neg: "bitpos < 0 \<Longrightarrow> getName_bits a bitpos c n = (c, bitpos)"
  by (induction n) auto

text \<open>
  What the inner loop of \<^verbatim>\<open>getName\<close> reads: \<open>min n (bitpos + 1)\<close> bits, the most
  significant first.
\<close>

lemma getName_bits_value:
  assumes "- 1 \<le> bitpos"
  shows "snd (getName_bits a bitpos c n) = max (bitpos - int n) (- 1) \<and>
    (\<forall>i. bit (fst (getName_bits a bitpos c n)) i =
      (if i < min n (nat (bitpos + 1)) then abit a (nat bitpos - (min n (nat (bitpos + 1)) - 1 - i))
       else bit c (i - min n (nat (bitpos + 1)))))"
  using assms
proof (induction n arbitrary: bitpos c)
  case 0
  then show ?case by simp
next
  case (Suc n)
  show ?case
  proof (cases "bitpos = - 1")
    case True
    then show ?thesis by (simp add: getName_bits_neg)
  next
    case False
    with Suc.prems have p: "0 \<le> bitpos" by simp
    let ?c = "2 * c + of_bool (abit a (nat bitpos))"
    define k where "k = min n (nat bitpos)"
    have kb: "k \<le> nat bitpos" by (simp add: k_def)
    have k: "min (Suc n) (nat (bitpos + 1)) = Suc k" using p by (simp add: nat_add_distrib k_def)
    have k': "min n (nat (bitpos - 1 + 1)) = k" by (simp add: k_def)
    from p have "- 1 \<le> bitpos - 1" by simp
    from Suc.IH [OF this, of ?c]
    have IH1: "snd (getName_bits a (bitpos - 1) ?c n) = max (bitpos - 1 - int n) (- 1)"
      and IH2: "\<And>i. bit (fst (getName_bits a (bitpos - 1) ?c n)) i =
        (if i < k then abit a (nat (bitpos - 1) - (k - 1 - i)) else bit ?c (i - k))"
      unfolding k' by blast+
    have bits: "bit (fst (getName_bits a (bitpos - 1) ?c n)) i =
        (if i < Suc k then abit a (nat bitpos - (Suc k - 1 - i)) else bit c (i - Suc k))" for i
    proof -
      consider "i < k" | "i = k" | "i > k" by linarith
      then show ?thesis
      proof cases
        case 1
        then have "nat (bitpos - 1) - (k - 1 - i) = nat bitpos - (Suc k - 1 - i)"
          using p kb by auto
        with 1 show ?thesis by (simp only: IH2) simp
      next
        case 2
        then show ?thesis by (simp add: IH2 bit_shift_in)
      next
        case 3
        then show ?thesis by (simp add: IH2 bit_shift_in)
      qed
    qed
    have "max (bitpos - 1 - int n) (- 1) = max (bitpos - int (Suc n)) (- 1)" by simp
    with IH1 bits show ?thesis
      by (simp only: getName_bits_step [OF p] k) blast
  qed
qed


lemma abit_update:
  assumes "p < 8 * length A" "q < 8 * length A"
  shows "abit (A[p div 8 := A ! (p div 8) OR push_bit (p mod 8) (of_nat (x AND 1))]) q =
    (if q = p then abit A p \<or> odd x else abit A q)"
proof -
  have x: "(of_nat (x AND 1) :: byte) = of_bool (odd x)"
    by (simp add: and_one_eq mod_2_eq_odd)
  have pb: "bit (push_bit m (of_bool v :: byte)) n = (v \<and> n = m \<and> n < 8)" for m n v
    by (cases v) (auto simp: bit_simps)
  show ?thesis
  proof (cases "q div 8 = p div 8")
    case True
    then have "(q = p) = (q mod 8 = p mod 8)" by (metis div_mult_mod_eq)
    with True assms show ?thesis
      by (simp only: abit_def x) (auto simp: bit_simps pb)
  next
    case False
    then have "q \<noteq> p" by auto
    with False show ?thesis by (simp add: abit_def)
  qed
qed

lemma pushName_bits_step:
  assumes "0 \<le> bitpos"
  shows "pushName_bits A bitpos c (Suc j) =
    pushName_bits (A[nat bitpos div 8 := A ! (nat bitpos div 8)
        OR push_bit (nat bitpos mod 8) (of_nat (drop_bit j c AND 1))]) (bitpos - 1) c j"
proof -
  have "nat (bitpos div 8) = nat bitpos div 8" "nat (bitpos mod 8) = nat bitpos mod 8"
    using assms by (simp_all add: nat_div_distrib nat_mod_distrib)
  with assms show ?thesis by (simp only: pushName_bits.simps if_True)
qed

lemma pushName_bits_neg: "bitpos < 0 \<Longrightarrow> pushName_bits A bitpos c n = (A, bitpos)"
  by (induction n) auto

lemma pushName_bits_written:
  assumes "length A = 8" "- 1 \<le> bitpos" "bitpos \<le> 63"
  shows "length (fst (pushName_bits A bitpos c n)) = 8 \<and>
    snd (pushName_bits A bitpos c n) = max (bitpos - int n) (- 1) \<and>
    (\<forall>q < 64. abit (fst (pushName_bits A bitpos c n)) q =
       (abit A q \<or> (int q \<le> bitpos \<and> bitpos - int q < int n \<and> bit c (n - 1 - nat (bitpos - int q)))))"
  using assms
proof (induction n arbitrary: A bitpos)
  case 0
  then show ?case by auto
next
  case (Suc j)
  show ?case
  proof (cases "bitpos = - 1")
    case True
    then show ?thesis using Suc.prems by (auto simp: pushName_bits_neg)
  next
    case False
    with Suc.prems have p: "0 \<le> bitpos" by simp
    define p' where "p' = nat bitpos"
    have p'64: "p' < 8 * length A" using Suc.prems p by (simp add: p'_def)
    define A1 where "A1 = A[p' div 8 := A ! (p' div 8) OR push_bit (p' mod 8) (of_nat (drop_bit j c AND 1))]"
    have len1: "length A1 = 8" using Suc.prems by (simp add: A1_def)
    have bits1: "abit A1 q = (if q = p' then abit A p' \<or> bit c j else abit A q)" if "q < 64" for q
      using abit_update [OF p'64, of q "drop_bit j c"] that Suc.prems(1)
      by (simp add: A1_def bit_iff_odd_drop_bit)
    have step: "pushName_bits A bitpos c (Suc j) = pushName_bits A1 (bitpos - 1) c j"
      by (simp only: pushName_bits_step [OF p] A1_def p'_def)
    from p Suc.prems have "- 1 \<le> bitpos - 1" "bitpos - 1 \<le> 63" by simp_all
    from Suc.IH [OF len1 this]
    have IH1: "length (fst (pushName_bits A1 (bitpos - 1) c j)) = 8"
      and IH2: "snd (pushName_bits A1 (bitpos - 1) c j) = max (bitpos - 1 - int j) (- 1)"
      and IH3: "\<And>q. q < 64 \<Longrightarrow> abit (fst (pushName_bits A1 (bitpos - 1) c j)) q =
        (abit A1 q \<or> (int q \<le> bitpos - 1 \<and> bitpos - 1 - int q < int j
           \<and> bit c (j - 1 - nat (bitpos - 1 - int q))))"
      by blast+
    have "abit (fst (pushName_bits A1 (bitpos - 1) c j)) q =
       (abit A q \<or> (int q \<le> bitpos \<and> bitpos - int q < int (Suc j)
          \<and> bit c (Suc j - 1 - nat (bitpos - int q))))" if q: "q < 64" for q
    proof (cases "q = p'")
      case True
      then have "int q = bitpos" using p by (simp add: p'_def)
      then show ?thesis using True IH3 [OF q] bits1 [OF q] by simp
    next
      case False
      show ?thesis
      proof (cases "int q < bitpos")
        case True
        then have "j - 1 - nat (bitpos - 1 - int q) = Suc j - 1 - nat (bitpos - int q)"
          by (simp add: nat_diff_distrib)
        with True False show ?thesis using IH3 [OF q] bits1 [OF q] by auto
      next
        case False
        with \<open>q \<noteq> p'\<close> p have "int q > bitpos" by (simp add: p'_def)
        with \<open>q \<noteq> p'\<close> show ?thesis using IH3 [OF q] bits1 [OF q] by simp
      qed
    qed
    moreover have "max (bitpos - 1 - int j) (- 1) = max (bitpos - int (Suc j)) (- 1)" by simp
    ultimately show ?thesis using IH1 IH2 by (simp only: step) blast
  qed
qed

lemma symbol_roundtrip: "c < 32 \<Longrightarrow> charToSymbol (of_char (symbolToChar c)) = c"
  by (auto simp: charToSymbol_def symbolToChar_def)

definition name_code :: "byte list \<Rightarrow> int \<Rightarrow> nat" where
  "name_code a bitpos = fst (getName_bits a bitpos 0 5)"

lemma getName_chars_step:
  assumes "0 \<le> bitpos"
  shows "getName_chars a bitpos result =
    getName_chars a (max (bitpos - 5) (- 1)) (result @ [symbolToChar (name_code a bitpos)])"
proof -
  have five: "Suc (Suc (Suc (Suc (Suc 0)))) = 5" by simp
  from assms have "- 1 \<le> bitpos" by simp
  from getName_bits_value [OF this, of a 0 5]
  have "snd (getName_bits a bitpos 0 5) = max (bitpos - 5) (- 1)" by simp
  then have "getName_bits a bitpos 0 5 = (name_code a bitpos, max (bitpos - 5) (- 1))"
    by (simp add: name_code_def prod_eq_iff)
  with assms show ?thesis
    by (subst getName_chars.simps) (simp only: five if_True case_prod_conv)
qed

lemma getName_chars_done: "bitpos < 0 \<Longrightarrow> getName_chars a bitpos result = result"
  by (subst getName_chars.simps) simp

lemma getName_chars_acc: "getName_chars a bitpos result = result @ getName_chars a bitpos []"
proof (induction "nat (bitpos + 1)" arbitrary: bitpos result rule: less_induct)
  case less
  show ?case
  proof (cases "bitpos \<ge> 0")
    case False
    then show ?thesis by (simp add: getName_chars_done)
  next
    case True
    let ?bp = "max (bitpos - 5) (- 1)"
    have m: "nat (?bp + 1) < nat (bitpos + 1)" using True by simp
    have "getName_chars a bitpos result = (result @ [symbolToChar (name_code a bitpos)]) @ getName_chars a ?bp []"
      by (simp only: getName_chars_step [OF True] less [OF m, of "result @ _"])
    moreover have "getName_chars a bitpos [] = [symbolToChar (name_code a bitpos)] @ getName_chars a ?bp []"
      by (simp only: getName_chars_step [OF True] less [OF m, of "[] @ _"]) simp
    ultimately show ?thesis by simp
  qed
qed

lemma getName_chars_Cons:
  "0 \<le> bitpos \<Longrightarrow> getName_chars a bitpos [] =
     symbolToChar (name_code a bitpos) # getName_chars a (max (bitpos - 5) (- 1)) []"
  using getName_chars_step [of bitpos a "[]"] getName_chars_acc [of a _ "[_]"] by simp

lemma name_code_bits:
  assumes "0 \<le> bitpos"
  shows "bit (name_code a bitpos) i =
    (i < min 5 (nat (bitpos + 1)) \<and> abit a (nat bitpos - (min 5 (nat (bitpos + 1)) - 1 - i)))"
proof -
  from assms have "- 1 \<le> bitpos" by simp
  from getName_bits_value [OF this, of a 0 5]
  have "bit (fst (getName_bits a bitpos 0 5)) i =
      (if i < min 5 (nat (bitpos + 1)) then abit a (nat bitpos - (min 5 (nat (bitpos + 1)) - 1 - i))
       else bit (0 :: nat) (i - min 5 (nat (bitpos + 1))))" by blast
  then show ?thesis by (simp only: name_code_def) auto
qed

lemma name_code_less: "0 \<le> bitpos \<Longrightarrow> name_code a bitpos < 32"
proof -
  assume p: "0 \<le> bitpos"
  have "take_bit 5 (name_code a bitpos) = name_code a bitpos"
    by (rule bit_eqI) (auto simp: bit_simps name_code_bits [OF p])
  moreover have "take_bit 5 (name_code a bitpos) < 2 ^ 5" by (rule take_bit_nat_less_exp)
  ultimately show ?thesis by simp
qed

lemma name_code_last_less: "name_code a 3 < 16"
proof -
  have "take_bit 4 (name_code a 3) = name_code a 3"
    by (rule bit_eqI) (auto simp: bit_simps name_code_bits)
  moreover have "take_bit 4 (name_code a 3) < 2 ^ 4" by (rule take_bit_nat_less_exp)
  ultimately show ?thesis by simp
qed

lemma pushName_chars_Cons:
  "pushName_chars A bitpos (ch # s) =
     pushName_chars
       (fst (pushName_bits A bitpos
          (if bitpos < 5 then push_bit 1 (charToSymbol (of_char ch)) else charToSymbol (of_char ch)) 5))
       (snd (pushName_bits A bitpos
          (if bitpos < 5 then push_bit 1 (charToSymbol (of_char ch)) else charToSymbol (of_char ch)) 5))
       s"
  by (simp add: Let_def case_prod_unfold del: push_bit_of_1 pushName_bits.simps)

lemma name_roundtrip_from:
  assumes "length a = 8" "length A = 8"
    and "bitpos = - 1 \<or> (0 \<le> bitpos \<and> bitpos \<le> 63 \<and> bitpos mod 5 = 3)"
    and "\<forall>q < 64. abit A q = (bitpos < int q \<and> abit a q)"
  shows "pushName_chars A bitpos (getName_chars a bitpos []) = a"
  using assms
proof (induction "nat (bitpos + 1)" arbitrary: bitpos A rule: less_induct)
  case less
  show ?case
  proof (cases "bitpos = - 1")
    case True
    have "A = a"
      by (rule abit_eqI [OF less.prems(1,2)]) (use less.prems(4) True in auto)
    with True show ?thesis by (simp add: getName_chars_done)
  next
    case False
    with less.prems(3) have p: "0 \<le> bitpos" "bitpos \<le> 63" "bitpos mod 5 = 3" by auto
    then have p3: "bitpos = 3 \<or> 8 \<le> bitpos" by presburger
    define v where "v = name_code a bitpos"
    define c where "c = (if bitpos < 5 then push_bit 1 v else v)"
    define bp where "bp = max (bitpos - 5) (- 1)"
    define A' where "A' = fst (pushName_bits A bitpos c 5)"
    have v32: "v < 32" unfolding v_def by (rule name_code_less [OF p(1)])
    from p have b1: "- 1 \<le> bitpos" by simp
    note w = pushName_bits_written [OF less.prems(2) b1 p(2), of c 5]
    have len: "length A' = 8" and snd: "snd (pushName_bits A bitpos c 5) = bp"
      using w by (simp_all add: A'_def bp_def)
    have bitsA': "abit A' q = (abit A q \<or> (int q \<le> bitpos \<and> bitpos - int q < 5
          \<and> bit c (4 - nat (bitpos - int q))))" if "q < 64" for q
      using w that by (simp add: A'_def)
    have inv: "\<forall>q < 64. abit A' q = (bp < int q \<and> abit a q)"
    proof (intro allI impI)
      fix q :: nat assume q: "q < 64"
      from less.prems(4) q have Aq: "abit A q = (bitpos < int q \<and> abit a q)" by blast
      consider "bitpos < int q" | "int q \<le> bitpos" "bitpos - int q < 5" | "bitpos - int q \<ge> 5"
        by linarith
      then show "abit A' q = (bp < int q \<and> abit a q)"
      proof cases
        case 1
        then show ?thesis using bitsA' [OF q] Aq by (auto simp: bp_def)
      next
        case 3
        then show ?thesis using bitsA' [OF q] Aq by (auto simp: bp_def)
      next
        case 2
        have "bit c (4 - nat (bitpos - int q)) = abit a q"
          using p3
        proof
          assume b3: "bitpos = 3"
          then have "c = push_bit 1 v" by (simp add: c_def)
          moreover have "4 - nat (bitpos - int q) = Suc q" using b3 2 by simp
          ultimately have "bit c (4 - nat (bitpos - int q)) = bit v q"
            by (simp add: bit_Suc)
          also have "\<dots> = abit a q"
            using 2 b3 unfolding v_def by (simp add: name_code_bits)
          finally show ?thesis .
        next
          assume b8: "8 \<le> bitpos"
          then have "c = v" by (simp add: c_def)
          moreover have "nat bitpos - (4 - (4 - nat (bitpos - int q))) = q" using 2 b8 by simp
          ultimately show ?thesis
            using 2 b8 unfolding v_def by (auto simp: name_code_bits [OF p(1)])
        qed
        with 2 show ?thesis using bitsA' [OF q] Aq by (auto simp: bp_def)
      qed
    qed
    have bp_ok: "bp = - 1 \<or> (0 \<le> bp \<and> bp \<le> 63 \<and> bp mod 5 = 3)"
      using p3 p by (auto simp: bp_def)
    have m: "nat (bp + 1) < nat (bitpos + 1)" using p by (simp add: bp_def)
    from less.hyps [OF m less.prems(1) len bp_ok inv]
    have IH: "pushName_chars A' bp (getName_chars a bp []) = a" .
    have "pushName_chars A bitpos (getName_chars a bitpos []) =
        pushName_chars A' bp (getName_chars a bp [])"
      by (simp only: getName_chars_Cons [OF p(1)] pushName_chars_Cons
          symbol_roundtrip [OF v32 [unfolded v_def]] snd [unfolded c_def v_def]
          A'_def c_def v_def bp_def)
    with IH show ?thesis by simp
  qed
qed

lemma name_roundtrip:
  assumes "length a = 8"
  shows "pushName_chars (replicate 8 0) 63 (getName_chars a 63 []) = a"
  by (rule name_roundtrip_from [OF assms]) (simp_all add: abit_def)

lemma pushName_bits_zero: "fst (pushName_bits A bitpos 0 n) = A"
  by (induction n arbitrary: A bitpos) (simp_all add: list_update_same_conv [THEN iffD2])

lemma pushName_chars_dots: "pushName_chars A bitpos (replicate k CHR ''.'') = A"
proof (induction k arbitrary: bitpos)
  case 0
  show ?case by simp
next
  case (Suc k)
  have z: "charToSymbol (of_char CHR ''.'') = 0" by (simp add: charToSymbol_def)
  show ?case
    by (simp only: replicate_Suc pushName_chars_Cons z push_bit_of_0 if_cancel
        pushName_bits_zero Suc.IH)
qed

lemma pushName_chars_append_dots:
  "pushName_chars A bitpos (s @ replicate k CHR ''.'') = pushName_chars A bitpos s"
proof (induction s arbitrary: A bitpos)
  case Nil
  show ?case by (simp add: pushName_chars_dots)
next
  case (Cons ch s)
  show ?case by (simp only: append_Cons pushName_chars_Cons Cons.IH)
qed

lemma endsWith_dot: "endsWith s ''.'' \<longleftrightarrow> s \<noteq> [] \<and> last s = CHR ''.''"
proof (cases s rule: rev_cases)
  case Nil
  then show ?thesis by (simp add: endsWith_def)
next
  case (snoc ys y)
  then show ?thesis by (simp add: endsWith_def)
qed

lemma strip_dots_spec:
  "(\<exists>k. result = strip_dots result @ replicate k CHR ''.'') \<and> \<not> endsWith (strip_dots result) ''.''"
proof (induction result rule: strip_dots.induct)
  case (1 result)
  show ?case
  proof (cases "endsWith result ''.''")
    case False
    then have "strip_dots result = result" by (subst strip_dots.simps) simp
    moreover have "result = result @ replicate 0 CHR ''.''" by simp
    ultimately show ?thesis using False by metis
  next
    case True
    then obtain ys where ys: "result = ys @ ''.''"
      by (cases result rule: rev_cases) (auto simp: endsWith_dot)
    then have sub: "js_substr result 0 (int (length result) - 1) = ys"
      by (simp add: js_substr_def js_substr_from_def)
    have eq: "strip_dots result = strip_dots ys"
      using True by (subst strip_dots.simps) (simp add: sub)
    from "1.IH" [OF True] obtain k where k: "ys = strip_dots ys @ replicate k CHR ''.''"
      and ne: "\<not> endsWith (strip_dots ys) ''.''"
      unfolding sub by blast
    have "replicate k CHR ''.'' @ ''.'' = replicate (Suc k) CHR ''.''"
      by (simp add: replicate_append_same)
    then have "result = strip_dots ys @ replicate (Suc k) CHR ''.''"
      using ys k by (metis append.assoc)
    with ne eq show ?thesis by metis
  qed
qed

lemma getName_chars_13:
  "getName_chars a 63 [] = map (\<lambda>i. symbolToChar (name_code a (63 - 5 * int i))) [0..<13]"
  by (simp add: getName_chars_Cons getName_chars_done upt_rec)

lemma getName_Inr:
  assumes "getName b = Inr (s, b1)"
  shows "b1 = b\<lparr>readPos := readPos b + 8\<rparr>"
    and "length (take 8 (drop (readPos b) (arrayB b))) = 8"
    and "s = (let r = getName_chars (take 8 (drop (readPos b) (arrayB b))) 63 [] in
              if r = ''.............'' then r else strip_dots r)"
  using assms
  by (auto simp: getName_def getUint8Array_def Let_def split: if_splits)

lemma getName_chars_zero: "getName_chars (replicate 8 0) 63 [] = ''.............''"
  by (simp add: getName_chars_13 name_code_def upt_rec symbolToChar_def numeral_eq_Suc)

section \<open>Reads stay inside the written bytes\<close>

text \<open>
  \<open>reads_within b r\<close>: when the read \<open>r\<close> of buffer \<open>b\<close> returns, the cursor has
  moved forward, not beyond the written length, and the bytes are untouched.
\<close>

definition reads_within :: "SerialBuffer \<Rightarrow> error + ('a \<times> SerialBuffer) \<Rightarrow> bool" where
  "reads_within b r =
     (case r of
        Inl e \<Rightarrow> True
      | Inr (x, b') \<Rightarrow>
          readPos b \<le> readPos b' \<and> readPos b' \<le> lengthB b \<and> lengthB b' = lengthB b \<and>
          arrayB b' = arrayB b)"

lemma reads_within_Inl [simp]: "reads_within b (Inl e)"
  by (simp add: reads_within_def)





















lemma getSymbol_precision_defined:
  assumes "get b = Inr (None, b1)"
  shows "\<exists>e. getUint8Array b1 7 = Inl e"
  using assms by (auto simp: get_def getUint8Array_def byteAt_def split: if_splits)

section \<open>Properties of the asset codec\<close>

lemma appended_slice:
  assumes "appended b bs b'" "k + n \<le> length bs"
  shows "take n (drop (lengthB b + k) (arrayB b')) = take n (drop k bs)"
proof (rule nth_equalityI)
  show "length (take n (drop (lengthB b + k) (arrayB b'))) = length (take n (drop k bs))"
    using assms by (auto simp: appended_def)
next
  fix i assume "i < length (take n (drop (lengthB b + k) (arrayB b')))"
  then have i: "i < n" by simp
  with assms(2) have "k + i < length bs" by simp
  with assms(1) have "arrayB b' ! (lengthB b + (k + i)) = bs ! (k + i)" by (simp add: appended_def)
  moreover have "lengthB b + k + i \<le> length (arrayB b')" "k + i \<le> length bs"
    using assms \<open>k + i < length bs\<close> by (auto simp: appended_def)
  ultimately show "take n (drop (lengthB b + k) (arrayB b')) ! i = take n (drop k bs) ! i"
    using i by (simp add: add.assoc)
qed

lemma getUint8Array_appended:
  assumes "appended b bs b'" "k + n \<le> length bs"
  shows "getUint8Array (b'\<lparr>readPos := lengthB b + k\<rparr>) n =
    Inr (take n (drop k bs), b'\<lparr>readPos := lengthB b + k + n\<rparr>)"
  using assms appended_slice [OF assms]
  by (auto simp: getUint8Array_def appended_def)

lemma get_appended:
  assumes "appended b bs b'" "k < length bs"
  shows "get (b'\<lparr>readPos := lengthB b + k\<rparr>) = Inr (Some (bs ! k), b'\<lparr>readPos := lengthB b + k + 1\<rparr>)"
  using assms by (auto simp: get_def appended_def byteAt_def)

lemma getAsset_appended:
  assumes a: "appended b (amt @ p # sym7) b1" and la: "length amt = 8" and ls: "length sym7 = 7"
  shows "getAsset ext (b1\<lparr>readPos := lengthB b\<rparr>) =
    bindR (textDecoder b (takeWhile (\<lambda>x. x \<noteq> 0) sym7)) (\<lambda>name.
      let s = signedBinaryToDecimal ext amt (nat (uint p + 1));
          s = (if uint p \<noteq> 0
               then js_substr s 0 (int (length s) - uint p) @ ''.''
                    @ js_substr_from s (int (length s) - uint p)
               else s)
      in Inr (s @ '' '' @ name, b1\<lparr>readPos := lengthB b1\<rparr>))"
proof -
  have l1: "lengthB b1 = lengthB b + 16" and td: "textDecoder b1 = textDecoder b"
    using a la ls by (simp_all add: appended_def)
  have 1: "getUint8Array (b1\<lparr>readPos := lengthB b\<rparr>) 8 = Inr (amt, b1\<lparr>readPos := lengthB b + 8\<rparr>)"
    using getUint8Array_appended [OF a, of 0 8] la ls by simp
  have 2: "get (b1\<lparr>readPos := lengthB b + 8\<rparr>) = Inr (Some p, b1\<lparr>readPos := lengthB b + 9\<rparr>)"
    using get_appended [OF a, of 8] la ls by (simp add: nth_append)
  have 3: "getUint8Array (b1\<lparr>readPos := lengthB b + 9\<rparr>) 7 = Inr (sym7, b1\<lparr>readPos := lengthB b1\<rparr>)"
    using getUint8Array_appended [OF a, of 9 7] la ls l1 by simp
  have td': "textDecoder (b1\<lparr>readPos := lengthB b + 8\<rparr>) = textDecoder b"
    using td by simp
  have sym: "getSymbol (b1\<lparr>readPos := lengthB b + 8\<rparr>) =
    bindR (textDecoder b (takeWhile (\<lambda>x. x \<noteq> 0) sym7)) (\<lambda>name.
      Inr ((name, uint p), b1\<lparr>readPos := lengthB b1\<rparr>))"
    by (simp only: getSymbol_def 2 3 bindR_simps prod.case option.case td')
  show ?thesis
  proof (cases "textDecoder b (takeWhile (\<lambda>x. x \<noteq> 0) sym7)")
    case (Inl e)
    then show ?thesis by (simp only: getAsset_def 1 sym bindR_simps prod.case)
  next
    case (Inr name)
    then show ?thesis by (simp only: getAsset_def 1 sym bindR_simps prod.case)
  qed
qed

lemma pushSymbol_appended:
  assumes "pushSymbol b (name, precision) = Some (Inr b1)"
  shows "appended b (take 8 ((ucast ((word_of_int precision :: 32 word) AND 0xff) # textEncoder b name)
      @ replicate (7 - length (textEncoder b name)) 0)) b1"
  using assms by (auto simp: pushSymbol_def Let_def dest!: pushArray_appended)

lemma pushAsset_1_2500:
  "pushAsset ext b ''1.2500 SYS'' =
     bindW (case signedDecimalToBinary ext 8 ''12500'' of
              Inl e \<Rightarrow> Some (Inl e) | Inr bytes \<Rightarrow> pushArray b bytes)
       (\<lambda>b1. pushSymbol b1 (''SYS'', 4))"
  by (simp add: pushAsset_def js_trim_def js_whitespace_def is_digit_def Let_def)

lemma pushAsset_minus_5:
  "pushAsset ext b ''-5 SYS'' =
     bindW (case signedDecimalToBinary ext 8 ''-5'' of
              Inl e \<Rightarrow> Some (Inl e) | Inr bytes \<Rightarrow> pushArray b bytes)
       (\<lambda>b1. pushSymbol b1 (''SYS'', 0))"
  by (simp add: pushAsset_def js_trim_def js_whitespace_def is_digit_def Let_def)

lemma pushAsset_dot_5: "pushAsset ext b ''.5 SYS'' = Some (Inl MalformedAsset)"
  by (simp add: pushAsset_def js_trim_def js_whitespace_def is_digit_def Let_def)

lemma asset_written:
  assumes ne: "arrayB b \<noteq> []" and la: "length amt = 8"
    and enc: "textEncoder b name = nm" and ln: "length nm \<le> 7"
  shows "\<exists>b1. bindW (pushArray b amt) (\<lambda>b'. pushSymbol b' (name, precision)) = Some (Inr b1) \<and>
    appended b (amt @ ucast ((word_of_int precision :: 32 word) AND 0xff) # nm @ replicate (7 - length nm) 0) b1"
proof -
  from pushArray_returns [OF ne] obtain b' where p: "pushArray b amt = Some (Inr b')" by blast
  then have a1: "appended b amt b'" by (rule pushArray_appended)
  then have "arrayB b' \<noteq> []" using la by (auto simp: appended_def)
  from pushArray_returns [OF this] obtain b1 where
    p2: "pushSymbol b' (name, precision) = Some (Inr b1)"
    by (auto simp: pushSymbol_def Let_def)
  have te: "textEncoder b' name = nm" using a1 enc by (simp add: appended_def)
  from pushSymbol_appended [OF p2]
  have "appended b' (ucast ((word_of_int precision :: 32 word) AND 0xff) # nm @ replicate (7 - length nm) 0) b1"
    using ln by (simp add: te)
  from appended_trans [OF a1 this] p p2 show ?thesis by simp
qed

lemma digits_value_12500: "digits_value ''12500'' = 12500"
  by (simp add: digits_value_def)


lemma upt_8: "[0..<8] = [0, 1, 2, 3, 4, 5, 6, 7]"
  by (simp add: upt_rec)

lemma encode_12500: "num_signedDecimalToBinary 8 ''12500'' = Inr [212, 48, 0, 0, 0, 0, 0, 0]"
  by (simp add: num_signedDecimalToBinary_def num_decimalToBinary_def is_digit_def digits_value_12500 le_bytes_def upt_8)

lemma bytes_value_12500: "bytes_value [212, 48, 0, 0, 0, 0, 0, 0] = 12500"
  by (simp add: bytes_value_def)

lemma decimal_digits_12500: "decimal_digits 12500 = ''12500''"
  by (simp add: decimal_digits.simps char_of_def bit_Suc_0_iff)

lemma decode_12500: "num_signedBinaryToDecimal [212, 48, 0, 0, 0, 0, 0, 0] 5 = ''12500''"
  by (simp add: num_signedBinaryToDecimal_def num_binaryToDecimal_def bytes_value_12500 decimal_digits_12500)


lemma encode_minus_5: "num_signedDecimalToBinary 8 ''-5'' = Inr [251, 255, 255, 255, 255, 255, 255, 255]"
  by (simp add: num_signedDecimalToBinary_def num_decimalToBinary_def is_digit_def digits_value_def
      le_bytes_def upt_8 num_negate_def bytes_value_def)

lemma decode_minus_5: "num_signedBinaryToDecimal [251, 255, 255, 255, 255, 255, 255, 255] 1 = ''-5''"
  by (simp add: num_signedBinaryToDecimal_def num_binaryToDecimal_def num_negate_def
      bytes_value_def le_bytes_def upt_8 decimal_digits.simps char_of_def bit_Suc_0_iff)

lemma sym_bytes:
  "ucast ((word_of_int 4 :: 32 word) AND 0xff) # [83, 89, 83] @ replicate (7 - length [83, 89, 83 :: byte]) 0
     = [4, 83, 89, 83, 0, 0, 0, 0 :: byte]"
  "ucast ((word_of_int 0 :: 32 word) AND 0xff) # [83, 89, 83] @ replicate (7 - length [83, 89, 83 :: byte]) 0
     = [0, 83, 89, 83, 0, 0, 0, 0 :: byte]"
proof -
  have r: "replicate (7 - length [83, 89, 83 :: byte]) (0 :: byte) = [0, 0, 0, 0]"
    by (simp add: numeral_eq_Suc)
  show "ucast ((word_of_int 4 :: 32 word) AND 0xff) # [83, 89, 83] @ replicate (7 - length [83, 89, 83 :: byte]) 0
     = [4, 83, 89, 83, 0, 0, 0, 0 :: byte]"
    "ucast ((word_of_int 0 :: 32 word) AND 0xff) # [83, 89, 83] @ replicate (7 - length [83, 89, 83 :: byte]) 0
     = [0, 83, 89, 83, 0, 0, 0, 0 :: byte]"
    unfolding r by simp_all
qed

subsection \<open>Single bytes\<close>

lemma pushVaruint32_zero: "pushVaruint32 b 0 = pushArray b [0]"
  by (subst pushVaruint32.simps) (simp add: push_def)

lemma push_appended:
  assumes "arrayB b \<noteq> []"
  shows "\<exists>b'. push b ns = Some (Inr b') \<and> appended b (map word_of_int ns) b'"
proof -
  from pushArray_returns [OF assms, of "map word_of_int ns"] obtain b' where
    p: "pushArray b (map word_of_int ns) = Some (Inr b')" by blast
  with pushArray_appended [OF p] show ?thesis by (simp add: push_def)
qed

subsection \<open>Type resolution\<close>

lemma getType_found:
  "map_of types name = Some a \<Longrightarrow> heap_get h a = Some t \<Longrightarrow> aliasOfName t = '''' \<Longrightarrow>
   getType h types name = Some (Inr (a, h))"
  by (subst getType.simps) simp

lemma getType_alias:
  "map_of types name = Some a \<Longrightarrow> heap_get h a = Some t \<Longrightarrow> aliasOfName t \<noteq> '''' \<Longrightarrow>
   getType h types name = getType h types (aliasOfName t)"
  by (subst getType.simps) simp

lemma getType_unknown:
  "map_of types name = None \<Longrightarrow> \<not> endsWith name ''[]'' \<Longrightarrow> \<not> endsWith name ''?'' \<Longrightarrow>
   getType h types name = Some (Inl (UnknownType name))"
  by (subst getType.simps) simp

text \<open>
  \<open>alias_chain h types names target\<close>: each name of \<open>names\<close> has an entry in \<open>types\<close>
  that is an alias of the next name, and the last one is an alias of \<open>target\<close>.
\<close>

fun alias_chain :: "heap \<Rightarrow> registry \<Rightarrow> string list \<Rightarrow> string \<Rightarrow> bool" where
  "alias_chain h types [] target = True"
| "alias_chain h types (x # xs) target =
     (case map_of types x of
        None \<Rightarrow> False
      | Some a \<Rightarrow>
          (case heap_get h a of
             None \<Rightarrow> False
           | Some t \<Rightarrow> aliasOfName t \<noteq> '''' \<and> aliasOfName t = hd (xs @ [target])
                        \<and> alias_chain h types xs target))"

lemma alias_chain_getType:
  "alias_chain h types names target \<Longrightarrow>
   getType h types (hd (names @ [target])) = getType h types target"
proof (induction names)
  case Nil
  show ?case by simp
next
  case (Cons x xs)
  from Cons.prems obtain a t where
    a: "map_of types x = Some a" and t: "heap_get h a = Some t" and
    al: "aliasOfName t \<noteq> ''''" "aliasOfName t = hd (xs @ [target])" and
    rest: "alias_chain h types xs target"
    by (auto split: option.splits)
  have "getType h types x = getType h types (hd (xs @ [target]))"
    using getType_alias [OF a t al(1)] al(2) by simp
  with Cons.IH [OF rest] show ?case by simp
qed

subsection \<open>Compiling a schema that declares an alias named asset\<close>

text \<open>
  The built-in registry and its heap, and the schema whose only declaration is the alias
  \<^verbatim>\<open>asset\<close> of \<^verbatim>\<open>uint8\<close>.
\<close>

definition abi_w3 :: Abi where
  "abi_w3 = \<lparr>abi_types = [\<lparr>new_type_name = ''asset'', typeA = ''uint8''\<rparr>], abi_structs = []\<rparr>"

lemma init_registry:
  "fst (createInitialTypes ext []) =
     [(''bool'', 0), (''uint8'', 1), (''int8'', 2), (''uint16'', 3), (''int16'', 4), (''uint32'', 5),
      (''uint64'', 6), (''int64'', 7), (''int32'', 8), (''varuint32'', 9), (''varint32'', 10),
      (''uint128'', 11), (''int128'', 12), (''float32'', 13), (''float64'', 14), (''float128'', 15),
      (''bytes'', 16), (''string'', 17), (''name'', 18), (''time_point'', 19),
      (''time_point_sec'', 20), (''block_timestamp_type'', 21), (''symbol_code'', 22),
      (''symbol'', 23), (''asset'', 24), (''checksum160'', 25), (''checksum256'', 26),
      (''checksum512'', 27), (''public_key'', 28), (''private_key'', 29), (''signature'', 30),
      (''extended_asset'', 31)]"
  by (simp add: createInitialTypes_def alloc_entries_def primitive_entries_def alloc_def)

definition extended_asset_object :: "addr option \<Rightarrow> addr option \<Rightarrow> Type" where
  "extended_asset_object q c =
     createType\<lparr>nameT := ''extended_asset'', baseName := '''',
       fieldsT := [\<lparr>nameF = ''quantity'', typeNameF = ''asset'', typeF = q\<rparr>,
                   \<lparr>nameF = ''contract'', typeNameF = ''name'', typeF = c\<rparr>],
       serialize := SerializeStruct, deserialize := DeserializeStruct\<rparr>"

lemma init_heap:
  "snd (createInitialTypes ext []) =
     map snd (primitive_entries ext) @ [extended_asset_object (Some 24) (Some 18)]"
proof -
  have "map_of (fst (alloc_entries [] (primitive_entries ext))) ''asset'' = Some 24"
    "map_of (fst (alloc_entries [] (primitive_entries ext))) ''name'' = Some 18"
    by (simp_all add: alloc_entries_def primitive_entries_def)
  then show ?thesis
    by (simp add: createInitialTypes_def alloc_def extended_asset_object_def split_beta Let_def)
      (simp add: alloc_entries_def)
qed

lemma prims_plain:
  "\<forall>kt \<in> set (primitive_entries ext). baseName (snd kt) = '''' \<and> fieldsT (snd kt) = [] \<and> aliasOfName (snd kt) = ''''"
  by (simp add: primitive_entries_def prim_def createType_def
      bool_type_def uint8_type_def int8_type_def uint16_type_def int16_type_def uint32_type_def
      uint64_type_def int64_type_def int32_type_def varuint32_type_def varint32_type_def
      uint128_type_def int128_type_def float32_type_def float64_type_def hex_type_def
      bytes_type_def string_type_def name_type_def time_point_type_def time_point_sec_type_def
      block_timestamp_type_def symbol_code_type_def symbol_type_def asset_type_def
      public_key_type_def private_key_type_def signature_type_def)

lemma length_prims: "length (primitive_entries ext) = 31"
  by (simp add: primitive_entries_def)

text \<open>An object with no base name and no field: the last loop of the compiler leaves it alone.\<close>

definition plain :: "heap \<Rightarrow> addr \<Rightarrow> bool" where
  "plain h a = (case heap_get h a of None \<Rightarrow> False | Some t \<Rightarrow> baseName t = '''' \<and> fieldsT t = [])"

lemma prim_at:
  assumes "k < 31"
  shows "heap_get (map snd (primitive_entries ext) @ xs) k = Some (snd (primitive_entries ext ! k))"
    and "baseName (snd (primitive_entries ext ! k)) = ''''"
    and "fieldsT (snd (primitive_entries ext ! k)) = []"
    and "aliasOfName (snd (primitive_entries ext ! k)) = ''''"
proof -
  from assms have k: "k < length (primitive_entries ext)" by (simp add: length_prims)
  then show "heap_get (map snd (primitive_entries ext) @ xs) k = Some (snd (primitive_entries ext ! k))"
    by (simp add: heap_get_def nth_append)
  from k have "primitive_entries ext ! k \<in> set (primitive_entries ext)" by (rule nth_mem)
  with prims_plain [of ext]
  show "baseName (snd (primitive_entries ext ! k)) = ''''"
    "fieldsT (snd (primitive_entries ext ! k)) = []"
    "aliasOfName (snd (primitive_entries ext ! k)) = ''''" by blast+
qed

lemma plain_prim: "k < 31 \<Longrightarrow> plain (map snd (primitive_entries ext) @ xs) k"
  by (simp add: plain_def prim_at)

lemma resolve_types_skip:
  "\<forall>e \<in> set es. plain h (snd e) \<Longrightarrow> resolve_types types (es @ rest) h = resolve_types types rest h"
proof (induction es)
  case Nil
  show ?case by simp
next
  case (Cons e es)
  obtain name a where e: "e = (name, a)" by (cases e)
  from Cons.prems e obtain t where t: "heap_get h a = Some t" "baseName t = ''''" "fieldsT t = []"
    by (auto simp: plain_def split: option.splits)
  from Cons.prems have "\<forall>e \<in> set es. plain h (snd e)" by simp
  from Cons.IH [OF this] t e show ?case by simp
qed


definition alias_object :: Type where
  "alias_object = createType\<lparr>nameT := ''asset'', aliasOfName := ''uint8''\<rparr>"

lemma compile_w3:
  fixes ext :: externals
  defines "P \<equiv> map snd (primitive_entries ext)"
  defines "types \<equiv> AList.update ''asset'' 32 (fst (createInitialTypes ext []))"
  shows "getTypesFromAbi (fst (createInitialTypes ext [])) abi_w3 (snd (createInitialTypes ext []))
         = Some (Inr (types, P @ [extended_asset_object (Some 1) (Some 18), alias_object]))"
proof -
  let ?h1 = "P @ [extended_asset_object (Some 24) (Some 18), alias_object]"
  let ?h2 = "P @ [extended_asset_object (Some 1) (Some 18), alias_object]"
  have lenP: "length P = 31" by (simp add: P_def length_prims)
  have decl: "foldl declare_alias (fst (createInitialTypes ext []), snd (createInitialTypes ext []))
                (abi_types abi_w3) = (types, ?h1)"
    by (simp add: abi_w3_def declare_alias_def alloc_def init_heap types_def P_def
        alias_object_def length_prims)
  have types_eq: "types =
     [(''bool'', 0), (''uint8'', 1), (''int8'', 2), (''uint16'', 3), (''int16'', 4), (''uint32'', 5),
      (''uint64'', 6), (''int64'', 7), (''int32'', 8), (''varuint32'', 9), (''varint32'', 10),
      (''uint128'', 11), (''int128'', 12), (''float32'', 13), (''float64'', 14), (''float128'', 15),
      (''bytes'', 16), (''string'', 17), (''name'', 18), (''time_point'', 19),
      (''time_point_sec'', 20), (''block_timestamp_type'', 21), (''symbol_code'', 22),
      (''symbol'', 23), (''asset'', 32), (''checksum160'', 25), (''checksum256'', 26),
      (''checksum512'', 27), (''public_key'', 28), (''private_key'', 29), (''signature'', 30)]
     @ [(''extended_asset'', 31)]"
    by (simp add: types_def init_registry)
  have al: "heap_get ?h1 32 = Some alias_object" "heap_get ?h2 32 = Some alias_object"
    by (simp_all add: heap_get_def nth_append lenP)
  have ea: "heap_get ?h1 31 = Some (extended_asset_object (Some 24) (Some 18))"
    by (simp add: heap_get_def nth_append lenP)
  have plain_al: "plain ?h1 32" using al by (simp add: plain_def alias_object_def createType_def)
  have plain_p: "plain ?h1 k" if "k < 31" for k using plain_prim [OF that] by (simp add: P_def)
  have m: "map_of types ''asset'' = Some 32" "map_of types ''uint8'' = Some 1"
    "map_of types ''name'' = Some 18"
    by (simp_all add: types_eq)
  have g1: "getType ?h1 types ''asset'' = Some (Inr (1, ?h1))"
  proof -
    have "getType ?h1 types ''asset'' = getType ?h1 types ''uint8''"
      using getType_alias [OF m(1) al(1)] by (simp add: alias_object_def createType_def)
    also have "\<dots> = Some (Inr (1, ?h1))"
      using getType_found [OF m(2), of ?h1 "snd (primitive_entries ext ! 1)"] prim_at [of 1 ext]
      by (simp add: P_def)
    finally show ?thesis .
  qed
  have s1: "set_field_type ?h1 31 0 1 = P @ [extended_asset_object (Some 1) (Some 18), alias_object]"
    by (simp add: set_field_type_def nth_append lenP list_update_append extended_asset_object_def)
  have g2: "getType ?h2 types ''name'' = Some (Inr (18, ?h2))"
    using getType_found [OF m(3), of ?h2 "snd (primitive_entries ext ! 18)"] prim_at [of 18 ext]
    by (simp add: P_def)
  have s2: "set_field_type ?h2 31 (Suc 0) 18 = ?h2"
    by (simp add: set_field_type_def nth_append lenP list_update_append extended_asset_object_def)
  have last: "resolve_types types [(''extended_asset'', 31)] ?h1 = Some (Inr ?h2)"
    using ea g1 g2 s1 s2
    by (simp add: extended_asset_object_def createType_def)
  have "resolve_types types types ?h1 = resolve_types types [(''extended_asset'', 31)] ?h1"
    by (subst (2) types_eq, rule resolve_types_skip) (simp add: plain_al plain_p)
  with last decl show ?thesis
    by (simp add: getTypesFromAbi_def abi_w3_def)
qed


subsection \<open>The cursor of a type decoder\<close>

text \<open>
  \<open>prims_within h\<close>: the \<^verbatim>\<open>deserialize\<close> of every primitive type of the heap, when it
  returns, has moved the cursor forward and not beyond the written length.
\<close>

definition prims_within :: "heap \<Rightarrow> bool" where
  "prims_within h \<longleftrightarrow>
     (\<forall>t \<in> set h. \<forall>f. deserialize t = DeserializePrim f \<longrightarrow> (\<forall>b. reads_within b (f b)))"

lemma reads_within_trans:
  "reads_within b (Inr (x, b1)) \<Longrightarrow> reads_within b1 r \<Longrightarrow> reads_within b r"
  by (cases r) (auto simp: reads_within_def)

lemma bindW_Some:
  assumes "bindW m f = Some r"
  obtains e where "m = Some (Inl e)" "r = Inl e" | x where "m = Some (Inr x)" "f x = Some r"
  using assms by (auto simp: bindW_def split: option.splits sum.splits)

lemma withW_Some:
  assumes "withW m f = Some r"
  obtains e where "m = Inl e" "r = Inl e" | x where "m = Inr x" "f x = Some r"
  using assms by (auto simp: withW_def split: sum.splits)

text \<open>A returned read starts from a cursor inside the written bytes.\<close>

definition within_or_error :: "SerialBuffer \<Rightarrow> error + ('a \<times> SerialBuffer) \<Rightarrow> bool" where
  "within_or_error b r \<longleftrightarrow> (readPos b \<le> lengthB b \<longrightarrow> reads_within b r)"

lemma deserialize_within_step:
  assumes pw: "prims_within h"
    and IH0: "\<forall>this b r. call_deserialize n h this b = Some r \<longrightarrow> within_or_error b r"
  shows fields_within: "deserializeStruct_fields n h fs result b = Some r \<Longrightarrow> within_or_error b r"
    and items_within: "deserializeArray_items n h element k acc b = Some r \<Longrightarrow> within_or_error b r"
proof -
  have IH: "within_or_error b r" if "call_deserialize n h this b = Some r" for this b r
    using IH0 that by blast
  show "deserializeStruct_fields n h fs result b = Some r \<Longrightarrow> within_or_error b r"
  proof (induction fs arbitrary: result b)
    case Nil
    then show ?case by (auto simp: within_or_error_def reads_within_def)
  next
    case (Cons f fs)
    show ?case
    proof (cases "typeF f")
      case None
      with Cons.prems show ?thesis by (auto simp: within_or_error_def)
    next
      case (Some ft)
      with Cons.prems have
        "bindW (call_deserialize n h ft b)
           (\<lambda>(v, b1). withW (js_set result (nameF f) v)
              (\<lambda>result1. deserializeStruct_fields n h fs result1 b1)) = Some r"
        by simp
      then show ?thesis
      proof (cases rule: bindW_Some)
        case (1 e)
        then show ?thesis by (simp add: within_or_error_def)
      next
        case (2 x)
        obtain v b1 where x: "x = (v, b1)" by (cases x)
        from IH [OF 2(1)] x have w1: "within_or_error b (Inr (v, b1))" by simp
        from 2(2) x have "withW (js_set result (nameF f) v)
              (\<lambda>result1. deserializeStruct_fields n h fs result1 b1) = Some r" by simp
        then show ?thesis
        proof (cases rule: withW_Some)
          case (1 e)
          then show ?thesis by (simp add: within_or_error_def)
        next
          case (2 result1)
          from Cons.IH [OF 2(2)] have w2: "within_or_error b1 r" .
          show ?thesis unfolding within_or_error_def
          proof
            assume p: "readPos b \<le> lengthB b"
            with w1 have a: "reads_within b (Inr (v, b1))" by (simp add: within_or_error_def)
            then have "readPos b1 \<le> lengthB b1" by (simp add: reads_within_def)
            with w2 have "reads_within b1 r" by (simp add: within_or_error_def)
            with a show "reads_within b r" by (rule reads_within_trans)
          qed
        qed
      qed
    qed
  qed
  show "deserializeArray_items n h element k acc b = Some r \<Longrightarrow> within_or_error b r"
  proof (induction k arbitrary: acc b)
    case 0
    then show ?case by (auto simp: within_or_error_def reads_within_def)
  next
    case (Suc k)
    show ?case
    proof (cases element)
      case None
      with Suc.prems show ?thesis by (auto simp: within_or_error_def)
    next
      case (Some el)
      with Suc.prems have
        "bindW (call_deserialize n h el b)
           (\<lambda>(v, b1). deserializeArray_items n h element k (acc @ [v]) b1) = Some r"
        by simp
      then show ?thesis
      proof (cases rule: bindW_Some)
        case (1 e)
        then show ?thesis by (simp add: within_or_error_def)
      next
        case (2 x)
        obtain v b1 where x: "x = (v, b1)" by (cases x)
        from IH [OF 2(1)] x have w1: "within_or_error b (Inr (v, b1))" by simp
        from 2(2) x have "deserializeArray_items n h element k (acc @ [v]) b1 = Some r" by simp
        from Suc.IH [OF this] have w2: "within_or_error b1 r" .
        show ?thesis unfolding within_or_error_def
        proof
          assume p: "readPos b \<le> lengthB b"
          with w1 have a: "reads_within b (Inr (v, b1))" by (simp add: within_or_error_def)
          then have "readPos b1 \<le> lengthB b1" by (simp add: reads_within_def)
          with w2 have "reads_within b1 r" by (simp add: within_or_error_def)
          with a show "reads_within b r" by (rule reads_within_trans)
        qed
      qed
    qed
  qed
qed












subsection \<open>The compiler keeps the primitive decoders\<close>













text \<open>A struct that is its own base, as the compiler makes it of a struct whose base has its name.\<close>

definition heap_self :: heap where
  "heap_self =
     [createType\<lparr>nameT := ''s'', baseName := ''s'', base := Some 0,
        serialize := SerializeStruct, deserialize := DeserializeStruct\<rparr>]"

lemma self_based_struct_never_returns: "call_deserialize n heap_self 0 b = None"
  by (induction n) (simp_all add: heap_self_def heap_get_def createType_def)


subsection \<open>Structs\<close>










section \<open>Claims\<close>

text \<open>Buffers for the witnesses.\<close>

definition buf_w0 :: SerialBuffer where
  "buf_w0 = \<lparr>lengthB = 1, arrayB = [7, 0, 0, 0], readPos = 1,
     textEncoder = ascii_encode, textDecoder = ascii_decode\<rparr>"

definition buf_w1 :: SerialBuffer where
  "buf_w1 = \<lparr>lengthB = 3, arrayB = [7, 1, 2, 0], readPos = 1,
     textEncoder = ascii_encode, textDecoder = ascii_decode\<rparr>"

definition buf_w4 :: SerialBuffer where
  "buf_w4 = \<lparr>lengthB = 8, arrayB = [0, 0, 0, 0, 0, 0xEA, 0x30, 0x55], readPos = 0,
     textEncoder = ascii_encode, textDecoder = ascii_decode\<rparr>"



text \<open>A buffer whose eight unread bytes are zero.\<close>

definition buf_w4z :: SerialBuffer where
  "buf_w4z = \<lparr>lengthB = 9, arrayB = [1, 0, 0, 0, 0, 0, 0, 0, 0, 0], readPos = 1,
     textEncoder = ascii_encode, textDecoder = ascii_decode\<rparr>"

lemma getName_eosio: "getName buf_w4 = Inr (''eosio'', buf_w4\<lparr>readPos := 8\<rparr>)"
  by (simp add: getName_def getUint8Array_def buf_w4_def getName_chars.simps symbolToChar_def
      strip_dots.simps endsWith_def js_substr_def js_substr_from_def Let_def char_of_def
      bit_Suc_0_iff)


text \<open>
  The collaborators for the witnesses: the decimal codec above; the key codec, the
  floats and the dates are not used by them and are placeholders.
\<close>

definition ext_w :: externals where
  "ext_w = \<lparr>
     decimalToBinary = num_decimalToBinary,
     signedDecimalToBinary = num_signedDecimalToBinary,
     binaryToDecimal = num_binaryToDecimal,
     signedBinaryToDecimal = num_signedBinaryToDecimal,
     stringToPublicKey = (\<lambda>s. Inl (External ''key'')),
     publicKeyToString = (\<lambda>k. Inl (External ''key'')),
     publicKeyDataSize = 33,
     stringToPrivateKey = (\<lambda>s. Inl (External ''key'')),
     privateKeyToString = (\<lambda>k. Inl (External ''key'')),
     privateKeyDataSize = 32,
     stringToSignature = (\<lambda>s. Inl (External ''signature'')),
     signatureToString = (\<lambda>k. Inl (External ''signature'')),
     signatureDataSize = 65,
     float32ToBytes = (\<lambda>v. replicate 4 0),
     bytesToFloat32 = (\<lambda>bs. JNum 0),
     float64ToBytes = (\<lambda>v. replicate 8 0),
     bytesToFloat64 = (\<lambda>bs. JNum 0),
     dateToTimePoint = (\<lambda>s. 0),
     timePointToDate = (\<lambda>n. Inl RangeError),
     dateToTimePointSec = (\<lambda>s. 0),
     timePointSecToDate = (\<lambda>n. Inl RangeError),
     dateToBlockTimestamp = (\<lambda>s. 0),
     blockTimestampToDate = (\<lambda>n. Inl RangeError)\<rparr>"


text \<open>A registry with the alias chain \<open>X\<close>, \<open>Y\<close>, \<open>uint8\<close>, and a contract with one action.\<close>

definition heap_w7 :: heap where
  "heap_w7 = [uint8_type, createType\<lparr>nameT := ''Y'', aliasOfName := ''uint8''\<rparr>,
              createType\<lparr>nameT := ''X'', aliasOfName := ''Y''\<rparr>]"

definition types_w7 :: registry where
  "types_w7 = [(''uint8'', 0), (''Y'', 1), (''X'', 2)]"

definition contract_w9 :: Contract where
  "contract_w9 = \<lparr>actions = [(''transfer'', 0)], typesC = types_w7\<rparr>"

text \<open>A heap with \<^verbatim>\<open>uint8\<close>, its array type and its optional type, and a buffer holding an array.\<close>

definition heap_w5 :: heap where
  "heap_w5 =
     [uint8_type,
      createType\<lparr>nameT := ''uint8[]'', arrayOf := Some 0,
        serialize := SerializeArray, deserialize := DeserializeArray\<rparr>,
      createType\<lparr>nameT := ''uint8?'', optionalOf := Some 0,
        serialize := SerializeOptional, deserialize := DeserializeOptional\<rparr>]"











text \<open>
  C2. For every unsigned 32-bit integer \<open>v\<close>, decoding what \<^verbatim>\<open>pushVaruint32\<close> wrote
  yields \<open>v\<close>; for every signed 32-bit integer \<open>s\<close>, decoding what
  \<^verbatim>\<open>pushVarint32\<close> wrote yields \<open>s\<close>. In both cases the bytes written are minimal:
  the last byte has no continuation flag, every byte before it has one, and with
  \<open>n > 1\<close> bytes the encoded value does not fit in \<open>7 * (n - 1)\<close> bits. The encoded
  value of \<open>s\<close> is its zigzag image \<open>2 * s\<close> or \<open>- 2 * s - 1\<close>. On a buffer whose
  backing array is not empty both encoders return.
\<close>

theorem varint_roundtrip_minimal:
  "(0 \<le> v \<and> v < 2 ^ 32 \<and> pushVaruint32 b v = Some (Inr b1) \<longrightarrow>
      getVaruint32 (b1\<lparr>readPos := lengthB b\<rparr>) = Inr (v, b1\<lparr>readPos := lengthB b1\<rparr>) \<and>
      minimal_varuint (written_since b b1) (nat v)) \<and>
   (- (2 ^ 31) \<le> s \<and> s < 2 ^ 31 \<and> pushVarint32 b s = Some (Inr b2) \<longrightarrow>
      getVarint32 (b2\<lparr>readPos := lengthB b\<rparr>) = Inr (s, b2\<lparr>readPos := lengthB b2\<rparr>) \<and>
      minimal_varuint (written_since b b2) (nat (if 0 \<le> s then 2 * s else - 2 * s - 1))) \<and>
   (arrayB b \<noteq> [] \<longrightarrow>
      (\<exists>b1. pushVaruint32 b v = Some (Inr b1)) \<and> (\<exists>b2. pushVarint32 b s = Some (Inr b2)))"
proof (intro conjI impI)
  assume h: "0 \<le> v \<and> v < 2 ^ 32 \<and> pushVaruint32 b v = Some (Inr b1)"
  let ?w = "word_of_int v :: 32 word"
  from h have a: "appended b (varuint32_bytes ?w) b1" by (simp add: pushVaruint32_appended)
  from h have u: "uint ?w = v" by (simp add: uint_word_of_int_small)
  from appended_decode [OF a] u
  show "getVaruint32 (b1\<lparr>readPos := lengthB b\<rparr>) = Inr (v, b1\<lparr>readPos := lengthB b1\<rparr>)"
    by simp
  from u have "unat ?w = nat v" by (metis nat_uint_eq)
  with varuint32_bytes_minimal [of ?w] appended_written_since [OF a]
  show "minimal_varuint (written_since b b1) (nat v)" by simp
next
  assume h: "- (2 ^ 31) \<le> s \<and> s < 2 ^ 31 \<and> pushVarint32 b s = Some (Inr b2)"
  let ?w = "word_of_int s :: 32 word"
  let ?z = "push_bit 1 ?w XOR signed_drop_bit 31 ?w"
  from h have sw: "sint ?w = s" by (simp add: sint_word_of_int_small)
  from h have "pushVaruint32 b (sint ?z) = Some (Inr b2)" by (simp add: pushVarint32_def)
  from pushVaruint32_appended [OF this] have a: "appended b (varuint32_bytes ?z) b2" by simp
  from getVarint32_zigzag [OF appended_decode [OF a]] sw
  show "getVarint32 (b2\<lparr>readPos := lengthB b\<rparr>) = Inr (s, b2\<lparr>readPos := lengthB b2\<rparr>)"
    by (simp only:)
  have "unat ?z = nat (uint ?z)" by (metis nat_uint_eq)
  also have "\<dots> = nat (if 0 \<le> s then 2 * s else - 2 * s - 1)"
    by (simp only: zigzag_value sw)
  finally have "unat ?z = nat (if 0 \<le> s then 2 * s else - 2 * s - 1)" .
  with varuint32_bytes_minimal [of ?z] appended_written_since [OF a]
  show "minimal_varuint (written_since b b2) (nat (if 0 \<le> s then 2 * s else - 2 * s - 1))"
    by (simp only:)
next
  assume "arrayB b \<noteq> []"
  then show "\<exists>b1. pushVaruint32 b v = Some (Inr b1)" "\<exists>b2. pushVarint32 b s = Some (Inr b2)"
    by (simp_all add: pushVaruint32_returns pushVarint32_def)
qed


definition buf_w2 :: SerialBuffer where
  "buf_w2 = \<lparr>lengthB = 3, arrayB = [7, 172, 2, 0], readPos = 1,
     textEncoder = ascii_encode, textDecoder = ascii_decode\<rparr>"

definition buf_w3 :: SerialBuffer where
  "buf_w3 = \<lparr>lengthB = 2, arrayB = [7, 5, 0, 0], readPos = 1,
     textEncoder = ascii_encode, textDecoder = ascii_decode\<rparr>"

theorem varint_roundtrip_minimal_witness:
  "pushVaruint32 buf_w0 300 = Some (Inr buf_w2) \<and>
   getVaruint32 (buf_w2\<lparr>readPos := lengthB buf_w0\<rparr>) = Inr (300, buf_w2\<lparr>readPos := lengthB buf_w2\<rparr>) \<and>
   minimal_varuint (written_since buf_w0 buf_w2) (nat 300) \<and>
   pushVarint32 buf_w0 (- 3) = Some (Inr buf_w3) \<and>
   getVarint32 (buf_w3\<lparr>readPos := lengthB buf_w0\<rparr>) = Inr (- 3, buf_w3\<lparr>readPos := lengthB buf_w3\<rparr>) \<and>
   minimal_varuint (written_since buf_w0 buf_w3) (nat 5) \<and>
   (\<exists>b1. pushVaruint32 buf_w0 300 = Some (Inr b1)) \<and> (\<exists>b2. pushVarint32 buf_w0 (- 3) = Some (Inr b2))"
proof -
  have p1: "pushVaruint32 buf_w0 300 = Some (Inr buf_w2)"
    by (simp add: pushVaruint32.simps buf_w0_def buf_w2_def push_def pushArray_def
        reserve_def array_set_def)
  have p2: "pushVarint32 buf_w0 (- 3) = Some (Inr buf_w3)"
    by (simp add: pushVarint32_def pushVaruint32.simps buf_w0_def buf_w3_def push_def
        pushArray_def reserve_def array_set_def)
  have ne: "arrayB buf_w0 \<noteq> []" by (simp add: buf_w0_def)
  from varint_roundtrip_minimal [of 300 buf_w0 buf_w2 "- 3" buf_w3] p1 p2 ne
  show ?thesis by simp
qed

text \<open>
  C3. Compiling a schema does not leave every object of the built-in registry as it was.
  \<^verbatim>\<open>getTypesFromAbi\<close> copies the registry, but its last loop assigns to the objects of
  all entries of the copy, which are the objects of the built-in registry. With the
  schema that declares the alias \<^verbatim>\<open>asset\<close> of \<^verbatim>\<open>uint8\<close>, the compilation returns, and
  the object of \<^verbatim>\<open>extended_asset\<close> in the built-in registry, whose field
  \<^verbatim>\<open>quantity\<close> had the type object of \<^verbatim>\<open>asset\<close>, has the type object of \<^verbatim>\<open>uint8\<close>
  there afterwards.
\<close>

theorem compile_rewrites_bootstrap_object:
  "case createInitialTypes ext [] of (initialTypes, h0) \<Rightarrow>
     map_of initialTypes ''extended_asset'' = Some 31 \<and>
     map_of initialTypes ''asset'' = Some 24 \<and> map_of initialTypes ''uint8'' = Some 1 \<and>
     map typeF (fieldsT (h0 ! 31)) = [Some 24, Some 18] \<and>
     (\<exists>types h1. getTypesFromAbi initialTypes abi_w3 h0 = Some (Inr (types, h1)) \<and>
        map typeF (fieldsT (h1 ! 31)) = [Some 1, Some 18] \<and> h1 ! 31 \<noteq> h0 ! 31)"
proof -
  obtain initialTypes h0 where c: "createInitialTypes ext [] = (initialTypes, h0)"
    by (cases "createInitialTypes ext []")
  from c init_registry [of ext] have m: "map_of initialTypes ''extended_asset'' = Some 31"
    "map_of initialTypes ''asset'' = Some 24" "map_of initialTypes ''uint8'' = Some 1"
    by simp_all
  from c init_heap [of ext] have h0: "h0 = map snd (primitive_entries ext) @ [extended_asset_object (Some 24) (Some 18)]"
    by simp
  have before: "map typeF (fieldsT (h0 ! 31)) = [Some 24, Some 18]"
    by (simp add: h0 nth_append length_prims extended_asset_object_def)
  let ?h1 = "map snd (primitive_entries ext) @ [extended_asset_object (Some 1) (Some 18), alias_object]"
  from compile_w3 [of ext] c
  have r: "getTypesFromAbi initialTypes abi_w3 h0 = Some (Inr (AList.update ''asset'' 32 initialTypes, ?h1))"
    by simp
  have after: "map typeF (fieldsT (?h1 ! 31)) = [Some 1, Some 18]"
    by (simp add: nth_append length_prims extended_asset_object_def)
  from before after have ne: "?h1 ! 31 \<noteq> h0 ! 31" by auto
  have "\<exists>types h1. getTypesFromAbi initialTypes abi_w3 h0 = Some (Inr (types, h1)) \<and>
        map typeF (fieldsT (h1 ! 31)) = [Some 1, Some 18] \<and> h1 ! 31 \<noteq> h0 ! 31"
    using r after ne by (intro exI conjI)
  with m before show ?thesis by (simp add: c)
qed


text \<open>
  C4. For every 8-byte input, \<^verbatim>\<open>getName\<close> decodes 13 codes, twelve of 5 bits and a
  thirteenth of 4 bits, and maps them to characters. When all 13 codes are zero, which
  is the case exactly when the eight bytes are zero, it returns the 13 dots as they
  are; otherwise it returns the 13 characters without their trailing dots, a string of
  at most 13 characters that does not end in a dot. Encoding the result with
  \<^verbatim>\<open>pushName\<close> pushes the original 8 bytes again, in every case: the 13 dots come
  from, and go back to, eight zero bytes. \<^verbatim>\<open>getName\<close> returns whenever 8 bytes are
  left to read, and on eight zero bytes it returns the 13 dots.
\<close>

theorem name_decode_encode:
  "(getName b = Inr (s, b1) \<longrightarrow>
      b1 = b\<lparr>readPos := readPos b + 8\<rparr> \<and>
      (\<exists>cs k. length cs = 13 \<and> (\<forall>c \<in> set cs. c < 32) \<and> cs ! 12 < 16 \<and>
         map symbolToChar cs = s @ replicate k CHR ''.'' \<and>
         ((\<forall>c \<in> set cs. c = 0) \<longrightarrow> s = ''.............'') \<and>
         ((\<exists>c \<in> set cs. c \<noteq> 0) \<longrightarrow> \<not> endsWith s ''.'')) \<and>
      length s \<le> 13 \<and> (s = ''.............'' \<or> \<not> endsWith s ''.'') \<and>
      pushName_chars (replicate 8 0) 63 s = take 8 (drop (readPos b) (arrayB b)) \<and>
      (s = ''.............'' \<longleftrightarrow> take 8 (drop (readPos b) (arrayB b)) = replicate 8 0) \<and>
      (\<forall>b'. pushName b' s = pushArray b' (take 8 (drop (readPos b) (arrayB b))))) \<and>
   (readPos b + 8 \<le> lengthB b \<and> lengthB b \<le> length (arrayB b) \<longrightarrow>
      (\<exists>s b1. getName b = Inr (s, b1))) \<and>
   (readPos b + 8 \<le> lengthB b \<and> lengthB b \<le> length (arrayB b) \<and>
    take 8 (drop (readPos b) (arrayB b)) = replicate 8 0 \<longrightarrow>
      getName b = Inr (''.............'', b\<lparr>readPos := readPos b + 8\<rparr>))"
proof (intro conjI impI)
  assume g: "getName b = Inr (s, b1)"
  define a where "a = take 8 (drop (readPos b) (arrayB b))"
  define r where "r = getName_chars a 63 []"
  define cs where "cs = map (\<lambda>i. name_code a (63 - 5 * int i)) [0..<13]"
  note gi = getName_Inr [OF g]
  have len: "length a = 8" using gi(2) by (simp add: a_def)
  have s: "s = (if r = ''.............'' then r else strip_dots r)"
    using gi(3) by (simp add: a_def r_def Let_def)
  have r_cs: "r = map symbolToChar cs"
    by (simp only: r_def cs_def getName_chars_13 map_map o_def)
  have lcs: "length cs = 13" by (simp add: cs_def)
  have c32: "\<forall>c \<in> set cs. c < 32" by (auto simp: cs_def intro!: name_code_less)
  have c16: "cs ! 12 < 16"
    using name_code_last_less [of a] by (simp add: cs_def upt_rec)
  have "\<exists>k. r = s @ replicate k CHR ''.''" and e: "s = ''.............'' \<or> \<not> endsWith s ''.''"
  proof -
    show "\<exists>k. r = s @ replicate k CHR ''.''"
    proof (cases "r = ''.............''")
      case True
      with s have "r = s @ replicate 0 CHR ''.''" by simp
      then show ?thesis by (rule exI)
    next
      case False
      with s have "s = strip_dots r" by simp
      with strip_dots_spec [of r] show ?thesis by (simp only:)
    qed
    show "s = ''.............'' \<or> \<not> endsWith s ''.''"
    proof (cases "r = ''.............''")
      case True
      with s show ?thesis by simp
    next
      case False
      with s have "s = strip_dots r" by simp
      with strip_dots_spec [of r] show ?thesis by simp
    qed
  qed
  then obtain k where k: "r = s @ replicate k CHR ''.''" by (elim exE)
  show "b1 = b\<lparr>readPos := readPos b + 8\<rparr>" by (rule gi(1))
  have all0: "s = ''.............''" if z: "\<forall>c \<in> set cs. c = 0"
  proof -
    have "symbolToChar c = CHR ''.''" if "c \<in> set cs" for c
      using z that by (auto simp: symbolToChar_def)
    then have "map symbolToChar cs = map (\<lambda>c. CHR ''.'') cs"
      by (intro map_cong refl)
    also have "\<dots> = replicate (length cs) CHR ''.''" by (simp add: map_replicate_const)
    also have "\<dots> = ''.............''" by (simp add: lcs numeral_eq_Suc)
    finally have "r = ''.............''" by (simp only: r_cs)
    with s show ?thesis by simp
  qed
  have some: "\<not> endsWith s ''.''" if nz: "\<exists>c \<in> set cs. c \<noteq> 0"
  proof -
    from nz obtain c where c: "c \<in> set cs" "c \<noteq> 0" by blast
    with c32 have "c < 32" by blast
    from symbol_roundtrip [OF this] c(2) have "symbolToChar c \<noteq> CHR ''.''"
      by (auto simp: charToSymbol_def)
    moreover from c(1) have "symbolToChar c \<in> set r" by (simp add: r_cs)
    ultimately have "r \<noteq> ''.............''" by auto
    with s have "s = strip_dots r" by simp
    with strip_dots_spec [of r] show ?thesis by simp
  qed
  have "length cs = 13 \<and> (\<forall>c \<in> set cs. c < 32) \<and> cs ! 12 < 16 \<and>
      map symbolToChar cs = s @ replicate k CHR ''.'' \<and>
      ((\<forall>c \<in> set cs. c = 0) \<longrightarrow> s = ''.............'') \<and>
      ((\<exists>c \<in> set cs. c \<noteq> 0) \<longrightarrow> \<not> endsWith s ''.'')"
  proof (intro conjI impI)
    show "length cs = 13" by (rule lcs)
    show "\<forall>c \<in> set cs. c < 32" by (rule c32)
    show "cs ! 12 < 16" by (rule c16)
    show "map symbolToChar cs = s @ replicate k CHR ''.''" using r_cs k by (simp only:)
    show "s = ''.............''" if "\<forall>c \<in> set cs. c = 0" using that by (rule all0)
    show "\<not> endsWith s ''.''" if "\<exists>c \<in> set cs. c \<noteq> 0" using that by (rule some)
  qed
  then show "\<exists>cs k. length cs = 13 \<and> (\<forall>c \<in> set cs. c < 32) \<and> cs ! 12 < 16 \<and>
      map symbolToChar cs = s @ replicate k CHR ''.'' \<and>
      ((\<forall>c \<in> set cs. c = 0) \<longrightarrow> s = ''.............'') \<and>
      ((\<exists>c \<in> set cs. c \<noteq> 0) \<longrightarrow> \<not> endsWith s ''.'')"
    by (intro exI)
  have "length r = 13" using r_cs lcs by simp
  moreover from arg_cong [OF k, of length] have "length r = length s + k" by simp
  ultimately show "length s \<le> 13" by simp
  show "s = ''.............'' \<or> \<not> endsWith s ''.''" by (rule e)
  have "pushName_chars (replicate 8 0) 63 s = pushName_chars (replicate 8 0) 63 r"
    by (simp only: k pushName_chars_append_dots)
  also have "\<dots> = a" unfolding r_def by (rule name_roundtrip [OF len])
  finally show rt: "pushName_chars (replicate 8 0) 63 s = take 8 (drop (readPos b) (arrayB b))"
    by (simp only: a_def)
  then show "\<forall>b'. pushName b' s = pushArray b' (take 8 (drop (readPos b) (arrayB b)))"
    by (simp add: pushName_def)
  show "s = ''.............'' \<longleftrightarrow> take 8 (drop (readPos b) (arrayB b)) = replicate 8 0"
  proof
    assume "s = ''.............''"
    then have "s = replicate 13 CHR ''.''" by (simp add: numeral_eq_Suc)
    with rt pushName_chars_dots [of "replicate 8 0" 63 13]
    show "take 8 (drop (readPos b) (arrayB b)) = replicate 8 0" by (simp only:)
  next
    assume "take 8 (drop (readPos b) (arrayB b)) = replicate 8 0"
    then have "r = ''.............''" by (simp only: r_def a_def getName_chars_zero)
    with s show "s = ''.............''" by simp
  qed
next
  assume "readPos b + 8 \<le> lengthB b \<and> lengthB b \<le> length (arrayB b)"
  then show "\<exists>s b1. getName b = Inr (s, b1)"
    by (simp add: getName_def getUint8Array_def Let_def)
next
  assume "readPos b + 8 \<le> lengthB b \<and> lengthB b \<le> length (arrayB b) \<and>
    take 8 (drop (readPos b) (arrayB b)) = replicate 8 0"
  then show "getName b = Inr (''.............'', b\<lparr>readPos := readPos b + 8\<rparr>)"
    by (simp add: getName_def getUint8Array_def getName_chars_zero)
qed

theorem name_decode_encode_witness:
  "getName buf_w4 = Inr (''eosio'', buf_w4\<lparr>readPos := 8\<rparr>) \<and>
   length ''eosio'' \<le> 13 \<and> \<not> endsWith ''eosio'' ''.'' \<and>
   pushName_chars (replicate 8 0) 63 ''eosio'' = take 8 (drop (readPos buf_w4) (arrayB buf_w4)) \<and>
   readPos buf_w4 + 8 \<le> lengthB buf_w4 \<and> lengthB buf_w4 \<le> length (arrayB buf_w4) \<and>
   (\<exists>s b1. getName buf_w4 = Inr (s, b1)) \<and>
   take 8 (drop (readPos buf_w4z) (arrayB buf_w4z)) = replicate 8 0 \<and>
   getName buf_w4z = Inr (''.............'', buf_w4z\<lparr>readPos := 9\<rparr>) \<and>
   pushName_chars (replicate 8 0) 63 ''.............'' = replicate 8 0"
proof -
  have ne: "''eosio'' \<noteq> ''.............''" by simp
  have r: "readPos buf_w4 + 8 \<le> lengthB buf_w4 \<and> lengthB buf_w4 \<le> length (arrayB buf_w4)"
    by (simp add: buf_w4_def)
  have z: "readPos buf_w4z + 8 \<le> lengthB buf_w4z \<and> lengthB buf_w4z \<le> length (arrayB buf_w4z) \<and>
    take 8 (drop (readPos buf_w4z) (arrayB buf_w4z)) = replicate 8 0"
    by (simp add: buf_w4z_def numeral_eq_Suc)
  have rp: "readPos buf_w4z + 8 = 9" by (simp add: buf_w4z_def)
  note e = name_decode_encode [of buf_w4 "''eosio''" "buf_w4\<lparr>readPos := 8\<rparr>"]
  note d = name_decode_encode [of buf_w4z "''.............''" "buf_w4z\<lparr>readPos := 9\<rparr>"]
  from d z rp have g: "getName buf_w4z = Inr (''.............'', buf_w4z\<lparr>readPos := 9\<rparr>)"
    by simp
  with d z have p: "pushName_chars (replicate 8 0) 63 ''.............'' = replicate 8 0"
    by simp
  from e getName_eosio ne r z g p show ?thesis by simp
qed

text \<open>
  C5. On a buffer with a backing array that is not empty, for every array type
  (whatever its element type) \<^verbatim>\<open>serialize\<close> of the empty array appends exactly the byte
  \<open>0\<close>, the varuint32 length zero; for every optional type \<^verbatim>\<open>serialize\<close> of
  \<^verbatim>\<open>null\<close> or \<^verbatim>\<open>undefined\<close> appends exactly the byte \<open>0\<close>; and \<^verbatim>\<open>serialize\<close> of any
  other value appends the byte \<open>1\<close> and then is the call of the inner type's
  \<^verbatim>\<open>serialize\<close> with that value on the buffer so extended.
\<close>

theorem empty_array_and_optional:
  "(heap_get h this = Some t \<and> serialize t = SerializeArray \<and> arrayB b \<noteq> [] \<longrightarrow>
      (\<exists>b'. call_serialize (Suc n) h this b (JArr []) = Some (Inr b') \<and> appended b [0] b')) \<and>
   (heap_get h this = Some t \<and> serialize t = SerializeOptional \<and> arrayB b \<noteq> [] \<and>
    (data = JNull \<or> data = JUndefined) \<longrightarrow>
      (\<exists>b'. call_serialize (Suc n) h this b data = Some (Inr b') \<and> appended b [0] b')) \<and>
   (heap_get h this = Some t \<and> serialize t = SerializeOptional \<and> arrayB b \<noteq> [] \<and>
    data \<noteq> JNull \<and> data \<noteq> JUndefined \<and> optionalOf t = Some inner \<longrightarrow>
      (\<exists>b1. appended b [1] b1 \<and>
         call_serialize (Suc n) h this b data = call_serialize n h inner b1 data))"
proof (intro conjI impI)
  assume A: "heap_get h this = Some t \<and> serialize t = SerializeArray \<and> arrayB b \<noteq> []"
  then obtain b' where p: "pushArray b [0] = Some (Inr b')"
    using pushArray_returns [of b "[0]"] by blast
  have "call_serialize (Suc n) h this b (JArr []) = Some (Inr b')"
    using A p by (simp add: js_length_def js_get_def own_properties_def js_ToNumber_def
        withW_def pushVaruint32_zero js_iterate_def)
  with pushArray_appended [OF p] show "\<exists>b'. call_serialize (Suc n) h this b (JArr []) = Some (Inr b') \<and> appended b [0] b'"
    by blast
next
  assume A: "heap_get h this = Some t \<and> serialize t = SerializeOptional \<and> arrayB b \<noteq> [] \<and>
    (data = JNull \<or> data = JUndefined)"
  then obtain b' where p: "push b [0] = Some (Inr b')" "appended b (map word_of_int [0]) b'"
    using push_appended [of b "[0]"] by blast
  have "call_serialize (Suc n) h this b data = Some (Inr b')"
    using A p(1) by auto
  with p(2) show "\<exists>b'. call_serialize (Suc n) h this b data = Some (Inr b') \<and> appended b [0] b'"
    by auto
next
  assume A: "heap_get h this = Some t \<and> serialize t = SerializeOptional \<and> arrayB b \<noteq> [] \<and>
    data \<noteq> JNull \<and> data \<noteq> JUndefined \<and> optionalOf t = Some inner"
  then obtain b1 where p: "push b [1] = Some (Inr b1)" "appended b (map word_of_int [1]) b1"
    using push_appended [of b "[1]"] by blast
  have "call_serialize (Suc n) h this b data = call_serialize n h inner b1 data"
    using A p(1) by simp
  with p(2) show "\<exists>b1. appended b [1] b1 \<and>
         call_serialize (Suc n) h this b data = call_serialize n h inner b1 data"
    by auto
qed

theorem empty_array_and_optional_witness:
  "(\<exists>b'. call_serialize (Suc 1) heap_w5 1 buf_w0 (JArr []) = Some (Inr b') \<and> appended buf_w0 [0] b') \<and>
   (\<exists>b'. call_serialize (Suc 1) heap_w5 2 buf_w0 JNull = Some (Inr b') \<and> appended buf_w0 [0] b') \<and>
   (\<exists>b1. appended buf_w0 [1] b1 \<and>
      call_serialize (Suc 1) heap_w5 2 buf_w0 (JNum 5) = call_serialize 1 heap_w5 0 b1 (JNum 5)) \<and>
   call_serialize (Suc 1) heap_w5 2 buf_w0 (JNum 5)
     = Some (Inr (buf_w0\<lparr>lengthB := 3, arrayB := [7, 1, 5, 0]\<rparr>))"
proof -
  have g: "heap_get heap_w5 1 = Some (heap_w5 ! 1)" "heap_get heap_w5 2 = Some (heap_w5 ! 2)"
    "serialize (heap_w5 ! 1) = SerializeArray" "serialize (heap_w5 ! 2) = SerializeOptional"
    "optionalOf (heap_w5 ! 2) = Some 0" "arrayB buf_w0 \<noteq> []"
    by (simp_all add: heap_w5_def heap_get_def createType_def buf_w0_def)
  note a = empty_array_and_optional [where h = heap_w5 and this = 1 and t = "heap_w5 ! 1"
      and b = buf_w0 and n = 1]
  note o1 = empty_array_and_optional [where h = heap_w5 and this = 2 and t = "heap_w5 ! 2"
      and b = buf_w0 and n = 1 and data = JNull]
  note o2 = empty_array_and_optional [where h = heap_w5 and this = 2 and t = "heap_w5 ! 2"
      and b = buf_w0 and n = 1 and data = "JNum 5" and inner = 0]
  have v: "call_serialize (Suc 1) heap_w5 2 buf_w0 (JNum 5)
     = Some (Inr (buf_w0\<lparr>lengthB := 3, arrayB := [7, 1, 5, 0]\<rparr>))"
    by (simp add: heap_w5_def heap_get_def createType_def uint8_type_def prim_def buf_w0_def
        push_def pushArray_def reserve_def array_set_def js_ToNumber_def withW_def)
  from a g have "\<exists>b'. call_serialize (Suc 1) heap_w5 1 buf_w0 (JArr []) = Some (Inr b') \<and> appended buf_w0 [0] b'"
    by blast
  moreover from o1 g have "\<exists>b'. call_serialize (Suc 1) heap_w5 2 buf_w0 JNull = Some (Inr b') \<and> appended buf_w0 [0] b'"
    by blast
  moreover from o2 g have "\<exists>b1. appended buf_w0 [1] b1 \<and>
      call_serialize (Suc 1) heap_w5 2 buf_w0 (JNum 5) = call_serialize 1 heap_w5 0 b1 (JNum 5)"
    by blast
  ultimately show ?thesis using v by blast
qed

text \<open>
  C6. Asset text codec. With a text codec that maps \<open>SYS\<close> to its three ASCII bytes
  and back, and a decimal codec that writes the digit strings \<open>12500\<close> and \<open>-5\<close>
  into 8 bytes and reads them back (with at least 5 digits and 1 digit): encoding
  \<open>1.2500 SYS\<close> and decoding the bytes written returns \<open>1.2500 SYS\<close>; encoding and
  decoding \<open>-5 SYS\<close> returns \<open>-5 SYS\<close>, with the minus sign and without a decimal
  point; encoding \<open>.5 SYS\<close> fails with MalformedAsset, whatever the collaborators.
\<close>

theorem asset_text_codec:
  assumes enc: "textEncoder b ''SYS'' = [83, 89, 83]"
    and dec: "textDecoder b [83, 89, 83] = Inr ''SYS''"
    and n1: "signedDecimalToBinary ext 8 ''12500'' = Inr a1" "length a1 = 8"
      "signedBinaryToDecimal ext a1 5 = ''12500''"
    and n2: "signedDecimalToBinary ext 8 ''-5'' = Inr a2" "length a2 = 8"
      "signedBinaryToDecimal ext a2 1 = ''-5''"
    and ne: "arrayB b \<noteq> []"
  shows "(\<exists>b1. pushAsset ext b ''1.2500 SYS'' = Some (Inr b1) \<and>
            getAsset ext (b1\<lparr>readPos := lengthB b\<rparr>) = Inr (''1.2500 SYS'', b1\<lparr>readPos := lengthB b1\<rparr>)) \<and>
         (\<exists>b2. pushAsset ext b ''-5 SYS'' = Some (Inr b2) \<and>
            getAsset ext (b2\<lparr>readPos := lengthB b\<rparr>) = Inr (''-5 SYS'', b2\<lparr>readPos := lengthB b2\<rparr>)) \<and>
         pushAsset ext b ''.5 SYS'' = Some (Inl MalformedAsset)"
proof (intro conjI)
  from asset_written [OF ne n1(2) enc, of 4] obtain b1 where
    p: "bindW (pushArray b a1) (\<lambda>b'. pushSymbol b' (''SYS'', 4)) = Some (Inr b1)"
    and a: "appended b (a1 @ 4 # [83, 89, 83, 0, 0, 0, 0]) b1"
    unfolding sym_bytes by auto
  have "getAsset ext (b1\<lparr>readPos := lengthB b\<rparr>) = Inr (''1.2500 SYS'', b1\<lparr>readPos := lengthB b1\<rparr>)"
    by (simp add: getAsset_appended [OF a n1(2)] dec n1(3) js_substr_def js_substr_from_def)
  with p show "\<exists>b1. pushAsset ext b ''1.2500 SYS'' = Some (Inr b1) \<and>
      getAsset ext (b1\<lparr>readPos := lengthB b\<rparr>) = Inr (''1.2500 SYS'', b1\<lparr>readPos := lengthB b1\<rparr>)"
    by (simp add: pushAsset_1_2500 n1(1))
next
  from asset_written [OF ne n2(2) enc, of 0] obtain b2 where
    p: "bindW (pushArray b a2) (\<lambda>b'. pushSymbol b' (''SYS'', 0)) = Some (Inr b2)"
    and a: "appended b (a2 @ 0 # [83, 89, 83, 0, 0, 0, 0]) b2"
    unfolding sym_bytes by auto
  have "getAsset ext (b2\<lparr>readPos := lengthB b\<rparr>) = Inr (''-5 SYS'', b2\<lparr>readPos := lengthB b2\<rparr>)"
    using n2(3) by (simp add: getAsset_appended [OF a n2(2)] dec)
  with p show "\<exists>b2. pushAsset ext b ''-5 SYS'' = Some (Inr b2) \<and>
      getAsset ext (b2\<lparr>readPos := lengthB b\<rparr>) = Inr (''-5 SYS'', b2\<lparr>readPos := lengthB b2\<rparr>)"
    by (simp add: pushAsset_minus_5 n2(1))
next
  show "pushAsset ext b ''.5 SYS'' = Some (Inl MalformedAsset)" by (rule pushAsset_dot_5)
qed

theorem asset_text_codec_witness:
  "textEncoder buf_w0 ''SYS'' = [83, 89, 83] \<and> textDecoder buf_w0 [83, 89, 83] = Inr ''SYS'' \<and>
   signedDecimalToBinary ext_w 8 ''12500'' = Inr [212, 48, 0, 0, 0, 0, 0, 0] \<and>
   signedBinaryToDecimal ext_w [212, 48, 0, 0, 0, 0, 0, 0] 5 = ''12500'' \<and>
   signedDecimalToBinary ext_w 8 ''-5'' = Inr [251, 255, 255, 255, 255, 255, 255, 255] \<and>
   signedBinaryToDecimal ext_w [251, 255, 255, 255, 255, 255, 255, 255] 1 = ''-5'' \<and>
   (\<exists>b1. pushAsset ext_w buf_w0 ''1.2500 SYS'' = Some (Inr b1) \<and>
      getAsset ext_w (b1\<lparr>readPos := lengthB buf_w0\<rparr>) = Inr (''1.2500 SYS'', b1\<lparr>readPos := lengthB b1\<rparr>)) \<and>
   (\<exists>b2. pushAsset ext_w buf_w0 ''-5 SYS'' = Some (Inr b2) \<and>
      getAsset ext_w (b2\<lparr>readPos := lengthB buf_w0\<rparr>) = Inr (''-5 SYS'', b2\<lparr>readPos := lengthB b2\<rparr>)) \<and>
   pushAsset ext_w buf_w0 ''.5 SYS'' = Some (Inl MalformedAsset)"
proof -
  have e: "textEncoder buf_w0 ''SYS'' = [83, 89, 83]"
    by (simp add: buf_w0_def ascii_encode_def)
  have d: "textDecoder buf_w0 [83, 89, 83] = Inr ''SYS''"
    by (simp add: buf_w0_def ascii_decode_def char_of_def bit_Suc_0_iff)
  have 1: "signedDecimalToBinary ext_w 8 ''12500'' = Inr [212, 48, 0, 0, 0, 0, 0, 0]"
    by (simp add: ext_w_def encode_12500)
  have 2: "signedBinaryToDecimal ext_w [212, 48, 0, 0, 0, 0, 0, 0] 5 = ''12500''"
    by (simp add: ext_w_def decode_12500)
  have 3: "signedDecimalToBinary ext_w 8 ''-5'' = Inr [251, 255, 255, 255, 255, 255, 255, 255]"
    by (simp add: ext_w_def encode_minus_5)
  have 4: "signedBinaryToDecimal ext_w [251, 255, 255, 255, 255, 255, 255, 255] 1 = ''-5''"
    using decode_minus_5 by (simp add: ext_w_def)
  have ne: "arrayB buf_w0 \<noteq> []" by (simp add: buf_w0_def)
  from asset_text_codec [OF e d 1 _ 2 3 _ 4 ne] e d 1 2 3 4 show ?thesis by simp
qed

text \<open>
  C7. In a registry where \<open>X\<close> is an alias of \<open>Y\<close>, \<open>Y\<close> an alias of \<^verbatim>\<open>uint8\<close>, and
  \<^verbatim>\<open>uint8\<close> an entry that is not an alias, \<^verbatim>\<open>getType\<close> of \<open>X\<close> returns the same type
  object as \<^verbatim>\<open>getType\<close> of \<^verbatim>\<open>uint8\<close>, and allocates nothing. A chain of aliases of any
  length resolves to the object of the entry, not an alias, that it ends in.
\<close>

theorem alias_chain_resolves:
  "(map_of types X = Some ax \<and> heap_get h ax = Some tx \<and> aliasOfName tx = Y \<and> Y \<noteq> '''' \<and>
    map_of types Y = Some ay \<and> heap_get h ay = Some ty \<and> aliasOfName ty = ''uint8'' \<and>
    map_of types ''uint8'' = Some u \<and> heap_get h u = Some tu \<and> aliasOfName tu = ''''
    \<longrightarrow> getType h types X = Some (Inr (u, h)) \<and> getType h types ''uint8'' = Some (Inr (u, h))) \<and>
   (alias_chain h types names target \<and>
    map_of types target = Some a \<and> heap_get h a = Some t \<and> aliasOfName t = ''''
    \<longrightarrow> getType h types (hd (names @ [target])) = Some (Inr (a, h)) \<and>
        getType h types target = Some (Inr (a, h)))"
proof (intro conjI impI)
  assume A: "map_of types X = Some ax \<and> heap_get h ax = Some tx \<and> aliasOfName tx = Y \<and> Y \<noteq> '''' \<and>
    map_of types Y = Some ay \<and> heap_get h ay = Some ty \<and> aliasOfName ty = ''uint8'' \<and>
    map_of types ''uint8'' = Some u \<and> heap_get h u = Some tu \<and> aliasOfName tu = ''''"
  then have u: "getType h types ''uint8'' = Some (Inr (u, h))"
    using getType_found [of types "''uint8''" u h tu] by simp
  from A have y: "getType h types Y = getType h types ''uint8''"
    using getType_alias [of types Y ay h ty] by simp
  from A have x: "getType h types X = getType h types Y"
    using getType_alias [of types X ax h tx] by simp
  from u show "getType h types ''uint8'' = Some (Inr (u, h))" .
  from x y u show "getType h types X = Some (Inr (u, h))" by simp
next
  assume B: "alias_chain h types names target \<and>
    map_of types target = Some a \<and> heap_get h a = Some t \<and> aliasOfName t = ''''"
  then have t: "getType h types target = Some (Inr (a, h))"
    using getType_found [of types target a h t] by simp
  from t show "getType h types target = Some (Inr (a, h))" .
  from B alias_chain_getType [of h types names target] t
  show "getType h types (hd (names @ [target])) = Some (Inr (a, h))" by simp
qed

theorem alias_chain_resolves_witness:
  "getType heap_w7 types_w7 ''X'' = Some (Inr (0, heap_w7)) \<and>
   getType heap_w7 types_w7 ''uint8'' = Some (Inr (0, heap_w7)) \<and>
   alias_chain heap_w7 types_w7 [''X'', ''Y''] ''uint8'' \<and>
   getType heap_w7 types_w7 (hd ([''X'', ''Y''] @ [''uint8''])) = Some (Inr (0, heap_w7))"
  using alias_chain_resolves [of types_w7 "''X''" 2 heap_w7 "heap_w7 ! 2" "''Y''" 1 "heap_w7 ! 1" 0
      "heap_w7 ! 0" "[''X'', ''Y'']" "''uint8''" 0 "heap_w7 ! 0"]
  by (simp add: heap_w7_def types_w7_def heap_get_def createType_def uint8_type_def prim_def)





text \<open>
  C9. For a name that the actions of the contract do not hold, \<^verbatim>\<open>serializeActionData\<close>
  and \<^verbatim>\<open>deserializeActionData\<close> fail with \<open>UnknownAction\<close>. For a name that has no
  entry in the registry and ends neither in \<^verbatim>\<open>[]\<close> nor in \<^verbatim>\<open>?\<close>, \<^verbatim>\<open>getType\<close> fails
  with \<open>UnknownType\<close>.
\<close>

theorem unknown_action_and_type:
  "(map_of (actions contract) name = None \<longrightarrow>
      serializeActionData n h contract account name data enc dec
        = Some (Inl (UnknownAction name account)) \<and>
      deserializeActionData n h contract account name bin enc dec
        = Some (Inl (UnknownAction name account))) \<and>
   (map_of types tn = None \<and> \<not> endsWith tn ''[]'' \<and> \<not> endsWith tn ''?'' \<longrightarrow>
      getType h types tn = Some (Inl (UnknownType tn)))"
  by (simp add: serializeActionData_def deserializeActionData_def getType_unknown)

theorem unknown_action_and_type_witness:
  "serializeActionData 5 heap_w7 contract_w9 ''eosio.token'' ''issue'' (JObj []) ascii_encode ascii_decode
     = Some (Inl (UnknownAction ''issue'' ''eosio.token'')) \<and>
   deserializeActionData 5 heap_w7 contract_w9 ''eosio.token'' ''issue'' (Inl ''00'') ascii_encode ascii_decode
     = Some (Inl (UnknownAction ''issue'' ''eosio.token'')) \<and>
   getType heap_w7 types_w7 ''uint9'' = Some (Inl (UnknownType ''uint9''))"
  using unknown_action_and_type [of contract_w9 "''issue''" 5 heap_w7 "''eosio.token''" "JObj []"
      ascii_encode ascii_decode "Inl ''00''" types_w7 "''uint9''"]
  by (simp add: contract_w9_def types_w7_def endsWith_def)

text \<open>
  C10. Every write operation of the buffer is append-only. When \<^verbatim>\<open>pushArray\<close>,
  \<^verbatim>\<open>push\<close> or \<^verbatim>\<open>pushUint8ArrayChecked\<close> returns, the bytes of the backing array
  below the previous written length are the same, the written length has grown by
  exactly the number of bytes pushed, and the read cursor has not moved.
\<close>

theorem push_operations_append_only:
  "(pushArray b v = Some (Inr b1) \<longrightarrow>
      lengthB b1 = lengthB b + length v \<and> readPos b1 = readPos b \<and>
      (\<forall>i. i < lengthB b \<longrightarrow> i < length (arrayB b) \<longrightarrow> arrayB b1 ! i = arrayB b ! i)) \<and>
   (push b ns = Some (Inr b2) \<longrightarrow>
      lengthB b2 = lengthB b + length ns \<and> readPos b2 = readPos b \<and>
      (\<forall>i. i < lengthB b \<longrightarrow> i < length (arrayB b) \<longrightarrow> arrayB b2 ! i = arrayB b ! i)) \<and>
   (pushUint8ArrayChecked b v len = Some (Inr b3) \<longrightarrow>
      lengthB b3 = lengthB b + length v \<and> readPos b3 = readPos b \<and>
      (\<forall>i. i < lengthB b \<longrightarrow> i < length (arrayB b) \<longrightarrow> arrayB b3 ! i = arrayB b ! i))"
proof (intro conjI impI)
  assume "pushArray b v = Some (Inr b1)"
  note p = pushArray_Inr [OF this]
  show "lengthB b1 = lengthB b + length v" "readPos b1 = readPos b"
    "\<forall>i. i < lengthB b \<longrightarrow> i < length (arrayB b) \<longrightarrow> arrayB b1 ! i = arrayB b ! i"
    using p by blast+
next
  assume "push b ns = Some (Inr b2)"
  then have "pushArray b (map word_of_int ns) = Some (Inr b2)" by (simp add: push_def)
  note p = pushArray_Inr [OF this]
  show "lengthB b2 = lengthB b + length ns" "readPos b2 = readPos b"
    "\<forall>i. i < lengthB b \<longrightarrow> i < length (arrayB b) \<longrightarrow> arrayB b2 ! i = arrayB b ! i"
    using p by simp_all
next
  assume "pushUint8ArrayChecked b v len = Some (Inr b3)"
  then have "pushArray b v = Some (Inr b3)"
    by (simp add: pushUint8ArrayChecked_def split: if_splits)
  note p = pushArray_Inr [OF this]
  show "lengthB b3 = lengthB b + length v" "readPos b3 = readPos b"
    "\<forall>i. i < lengthB b \<longrightarrow> i < length (arrayB b) \<longrightarrow> arrayB b3 ! i = arrayB b ! i"
    using p by blast+
qed

theorem push_operations_append_only_witness:
  "pushArray buf_w0 [1, 2] = Some (Inr buf_w1) \<and>
   push buf_w0 [257, 2] = Some (Inr buf_w1) \<and>
   pushUint8ArrayChecked buf_w0 [1, 2] 2 = Some (Inr buf_w1) \<and>
   lengthB buf_w1 = lengthB buf_w0 + 2 \<and> readPos buf_w1 = readPos buf_w0 \<and>
   arrayB buf_w1 ! 0 = arrayB buf_w0 ! 0"
  using push_operations_append_only
    [of buf_w0 "[1, 2]" buf_w1 "[257, 2]" buf_w1 2 buf_w1]
  by (simp add: buf_w0_def buf_w1_def push_def pushUint8ArrayChecked_def pushArray_def
      reserve_def array_set_def)






end
